theory Spec2Isabelle
  imports
    Complex_Main
    "HOL-Library.Word"
    "HOL-Library.Sublist"
    "HOL-Library.AList"
    "HOL-Library.Char_ord"
    "HOL-Library.List_Lexorder"
    "HOL-Library.Multiset"
begin

unbundle bit_operations_syntax

section \<open>Error taxonomy and constants (types/cache.ts, constants/cache.ts)\<close>

datatype CacheErrorType =
  INITIALIZATION_FAILED
  | STORAGE_QUOTA_EXCEEDED
  | DATA_CORRUPTION
  | SERIALIZATION_ERROR
  | TIMEOUT_ERROR
  | UNKNOWN_ERROR

datatype RecoveryAction =
  RETRY_OPERATION
  | CLEANUP_AND_RETRY
  | FALLBACK_TO_NON_CACHED
  | DELETE_CORRUPTED_CACHE
  | REDUCE_BATCH_SIZE

text \<open>
  A thrown JavaScript \<open>Error\<close>: its \<open>name\<close>, its \<open>message\<close> and, for an instance of
  \<open>CacheError\<close>, the \<open>type\<close> field it carries.
\<close>

record js_error =
  err_name :: string
  err_message :: string
  err_type :: "CacheErrorType option"

definition CacheError :: "string \<Rightarrow> CacheErrorType \<Rightarrow> js_error" where
  "CacheError msg ty = \<lparr>err_name = ''CacheError'', err_message = msg, err_type = Some ty\<rparr>"

text \<open>\<open>RETRY_CONFIG\<close> of constants/cache.ts.\<close>

definition MAX_RETRIES :: nat where
  "MAX_RETRIES = 3"

definition RETRY_DELAY :: nat where
  "RETRY_DELAY = 1000"

definition BACKOFF_MULTIPLIER :: nat where
  "BACKOFF_MULTIPLIER = 2"

definition CACHE_VERSION :: string where
  "CACHE_VERSION = ''1.0.0''"

subsection \<open>String helpers of the JavaScript runtime\<close>

definition lowerChar :: "char \<Rightarrow> char" where
  "lowerChar c =
     (case map_of (zip ''ABCDEFGHIJKLMNOPQRSTUVWXYZ'' ''abcdefghijklmnopqrstuvwxyz'') c of
        Some l \<Rightarrow> l
      | None \<Rightarrow> c)"

definition toLowerCase :: "string \<Rightarrow> string" where
  "toLowerCase s = map lowerChar s"

text \<open>\<open>hay.includes(needle)\<close>: the needle occurs as a contiguous substring.\<close>

fun str_includes :: "string \<Rightarrow> string \<Rightarrow> bool" where
  "str_includes [] needle = (needle = [])"
| "str_includes (c # cs) needle = (prefix needle (c # cs) \<or> str_includes cs needle)"

section \<open>ErrorRecoveryStrategyImpl (errorRecoveryStrategy.ts)\<close>

record ErrorRecoveryStrategyImpl =
  fallbackMode :: bool
  retryCount :: "string \<rightharpoonup> nat"

definition newErrorRecoveryStrategy :: ErrorRecoveryStrategyImpl where
  "newErrorRecoveryStrategy = \<lparr>fallbackMode = False, retryCount = Map.empty\<rparr>"

definition detectErrorType :: "js_error \<Rightarrow> CacheErrorType" where
  "detectErrorType error =
     (case err_type error of
        Some ty \<Rightarrow> ty
      | None \<Rightarrow>
         (let message = toLowerCase (err_message error);
              name = toLowerCase (err_name error)
          in if str_includes message ''indexeddb'' \<or> str_includes message ''not supported''
                \<or> str_includes message ''not available'' \<or> str_includes name ''notsupportederror''
             then INITIALIZATION_FAILED
             else if str_includes message ''quota'' \<or> str_includes message ''storage''
                \<or> str_includes message ''disk'' \<or> name = ''quotaexceedederror''
                \<or> str_includes message ''insufficient storage''
             then STORAGE_QUOTA_EXCEEDED
             else if str_includes message ''timeout'' \<or> str_includes message ''timed out''
                \<or> str_includes name ''timeouterror'' \<or> str_includes message ''operation timeout''
             then TIMEOUT_ERROR
             else if str_includes message ''json'' \<or> str_includes message ''parse''
                \<or> str_includes message ''stringify'' \<or> str_includes message ''serializ''
                \<or> str_includes message ''invalid character'' \<or> str_includes name ''syntaxerror''
             then SERIALIZATION_ERROR
             else if str_includes message ''corrupt'' \<or> str_includes message ''invalid''
                \<or> str_includes message ''malformed'' \<or> str_includes message ''unexpected''
                \<or> str_includes message ''version mismatch'' \<or> str_includes name ''dataerror''
             then DATA_CORRUPTION
             else if str_includes message ''database'' \<or> str_includes message ''transaction''
                \<or> str_includes message ''objectstore'' \<or> str_includes name ''invalidstateerror''
                \<or> str_includes name ''transactioninactiveerror''
             then INITIALIZATION_FAILED
             else UNKNOWN_ERROR))"

definition selectRecoveryStrategy ::
  "ErrorRecoveryStrategyImpl \<Rightarrow> CacheErrorType \<Rightarrow> RecoveryAction" where
  "selectRecoveryStrategy s errorType =
     (if fallbackMode s then FALLBACK_TO_NON_CACHED
      else case errorType of
        INITIALIZATION_FAILED \<Rightarrow> FALLBACK_TO_NON_CACHED
      | STORAGE_QUOTA_EXCEEDED \<Rightarrow> CLEANUP_AND_RETRY
      | DATA_CORRUPTION \<Rightarrow> DELETE_CORRUPTED_CACHE
      | SERIALIZATION_ERROR \<Rightarrow> FALLBACK_TO_NON_CACHED
      | TIMEOUT_ERROR \<Rightarrow> RETRY_OPERATION
      | UNKNOWN_ERROR \<Rightarrow> CLEANUP_AND_RETRY)"

text \<open>\<open>fallbackToNonCached\<close> sets the flag, clears the counters and returns \<open>true\<close>.\<close>

definition fallbackToNonCached ::
  "ErrorRecoveryStrategyImpl \<Rightarrow> bool \<times> ErrorRecoveryStrategyImpl" where
  "fallbackToNonCached s = (True, s\<lparr>fallbackMode := True, retryCount := Map.empty\<rparr>)"

definition isInFallbackMode :: "ErrorRecoveryStrategyImpl \<Rightarrow> bool" where
  "isInFallbackMode s = fallbackMode s"

definition resetFallbackMode :: "ErrorRecoveryStrategyImpl \<Rightarrow> ErrorRecoveryStrategyImpl" where
  "resetFallbackMode s = s\<lparr>fallbackMode := False, retryCount := Map.empty\<rparr>"

text \<open>\<open>this.retryCount.get(operationId) || 0\<close>\<close>

definition getRetryCount :: "ErrorRecoveryStrategyImpl \<Rightarrow> string \<Rightarrow> nat" where
  "getRetryCount s operationId =
     (case retryCount s operationId of None \<Rightarrow> 0 | Some c \<Rightarrow> c)"

definition incrementRetryCount ::
  "ErrorRecoveryStrategyImpl \<Rightarrow> string \<Rightarrow> nat \<times> ErrorRecoveryStrategyImpl" where
  "incrementRetryCount s operationId =
     (let current = getRetryCount s operationId;
          newCount = current + 1
      in (newCount, s\<lparr>retryCount := (retryCount s)(operationId \<mapsto> newCount)\<rparr>))"

definition resetRetryCount ::
  "ErrorRecoveryStrategyImpl \<Rightarrow> string \<Rightarrow> ErrorRecoveryStrategyImpl" where
  "resetRetryCount s operationId = s\<lparr>retryCount := (retryCount s)(operationId := None)\<rparr>"

definition shouldRetry :: "ErrorRecoveryStrategyImpl \<Rightarrow> string \<Rightarrow> bool" where
  "shouldRetry s operationId =
     (let retryCount = getRetryCount s operationId
      in retryCount < MAX_RETRIES \<and> \<not> fallbackMode s)"

definition calculateRetryDelay :: "ErrorRecoveryStrategyImpl \<Rightarrow> string \<Rightarrow> nat" where
  "calculateRetryDelay s operationId =
     (let retryCount = getRetryCount s operationId
      in RETRY_DELAY * BACKOFF_MULTIPLIER ^ retryCount)"

text \<open>
  \<open>executeRecovery\<close>: the four strategy methods are placeholders that return \<open>true\<close>; only
  \<open>FALLBACK_TO_NON_CACHED\<close> changes the state.
\<close>

definition executeRecovery ::
  "ErrorRecoveryStrategyImpl \<Rightarrow> RecoveryAction \<Rightarrow> bool \<times> ErrorRecoveryStrategyImpl" where
  "executeRecovery s action =
     (case action of
        RETRY_OPERATION \<Rightarrow> (True, s)
      | CLEANUP_AND_RETRY \<Rightarrow> (True, s)
      | FALLBACK_TO_NON_CACHED \<Rightarrow> fallbackToNonCached s
      | DELETE_CORRUPTED_CACHE \<Rightarrow> (True, s)
      | REDUCE_BATCH_SIZE \<Rightarrow> (True, s))"

record recovery_result =
  recovered :: bool
  action :: RecoveryAction
  shouldFallback :: bool

definition handleError ::
  "ErrorRecoveryStrategyImpl \<Rightarrow> js_error \<Rightarrow> string
     \<Rightarrow> recovery_result \<times> ErrorRecoveryStrategyImpl" where
  "handleError s error operationId =
     (let errorType = detectErrorType error
      in if \<not> shouldRetry s operationId
         then (let (r, s1) = fallbackToNonCached s
               in (\<lparr>recovered = r, action = FALLBACK_TO_NON_CACHED, shouldFallback = True\<rparr>, s1))
         else (let act = selectRecoveryStrategy s errorType;
                   (_, s1) = incrementRetryCount s operationId;
                   (r, s2) = executeRecovery s1 act
               in (\<lparr>recovered = r, action = act, shouldFallback = fallbackMode s2\<rparr>, s2)))"

text \<open>
  \<open>createRecoveryWrapper(operationId, operation, fallbackValue)()\<close>. The wrapped
  operation works on the rest of the program state \<open>'st\<close> and either returns or throws;
  what it changed before throwing stays changed. The back-off delay before a retry is a
  timer and is not part of the state.
\<close>

function createRecoveryWrapper ::
  "string \<Rightarrow> ('st \<Rightarrow> (js_error + 'a) \<times> 'st) \<Rightarrow> 'a
     \<Rightarrow> ErrorRecoveryStrategyImpl \<times> 'st \<Rightarrow> 'a \<times> ErrorRecoveryStrategyImpl \<times> 'st" where
  "createRecoveryWrapper operationId operation fallbackValue (s, st) =
     (if fallbackMode s then (fallbackValue, s, st)
      else case operation st of
        (Inr result, st1) \<Rightarrow> (result, resetRetryCount s operationId, st1)
      | (Inl error, st1) \<Rightarrow>
          (let (recovery, s1) = handleError s error operationId
           in if shouldFallback recovery then (fallbackValue, s1, st1)
              else if action recovery = RETRY_OPERATION \<and> shouldRetry s1 operationId
              then createRecoveryWrapper operationId operation fallbackValue (s1, st1)
              else (fallbackValue, s1, st1)))"
  by pat_completeness auto

lemma handleError_retry_count:
  assumes "handleError s error operationId = (recovery, s1)"
    and "\<not> shouldFallback recovery"
  shows "getRetryCount s1 operationId = getRetryCount s operationId + 1"
    and "getRetryCount s operationId < MAX_RETRIES"
  using assms
  by (auto simp: handleError_def shouldRetry_def fallbackToNonCached_def
      incrementRetryCount_def executeRecovery_def getRetryCount_def Let_def
      split: if_splits RecoveryAction.splits prod.splits)

termination createRecoveryWrapper
proof (relation "measure (\<lambda>(operationId, operation, fallbackValue, (s, st)).
         MAX_RETRIES - getRetryCount s operationId)", goal_cases)
  case 1
  show ?case by simp
next
  case (2 operationId operation fallbackValue s st x y error x2 recovery s1)
  then have "handleError s error operationId = (recovery, s1)" by simp
  from handleError_retry_count[OF this \<open>\<not> shouldFallback recovery\<close>]
  show ?case by simp
qed

declare createRecoveryWrapper.simps [simp del]

section \<open>Hashing and key derivation (cacheManager.ts)\<close>

text \<open>
  \<open>Number.prototype.toString(radix)\<close> on a non-negative integer: digits \<open>0-9a-z\<close>.
\<close>

definition digitChar :: "nat \<Rightarrow> char" where
  "digitChar d = ''0123456789abcdefghijklmnopqrstuvwxyz'' ! d"

fun toStringRadix :: "nat \<Rightarrow> nat \<Rightarrow> string" where
  "toStringRadix radix n =
     (if n < radix \<or> radix < 2 then [digitChar n]
      else toStringRadix radix (n div radix) @ [digitChar (n mod radix)])"

declare toStringRadix.simps [simp del]

text \<open>
  \<open>JSON.stringify\<close> of an array joins the serialised elements with commas inside
  brackets. The element type is generic in the source; its serialisation is the parameter
  \<open>ser\<close>.
\<close>

fun joinComma :: "string list \<Rightarrow> string" where
  "joinComma [] = []"
| "joinComma [x] = x"
| "joinComma (x # y # ys) = x @ '','' @ joinComma (y # ys)"

definition stringifyArray :: "('a \<Rightarrow> string) \<Rightarrow> 'a list \<Rightarrow> string" where
  "stringifyArray ser xs = ''['' @ joinComma (map ser xs) @ '']''"

text \<open>\<open>JSON.stringify\<close> of a string: quoted, with the JSON escapes.\<close>

definition escapeChar :: "char \<Rightarrow> string" where
  "escapeChar c =
     (if c = CHR 0x22 then [CHR 0x5C, CHR 0x22]
      else if c = CHR 0x5C then [CHR 0x5C, CHR 0x5C]
      else if c = CHR 0x0A then [CHR 0x5C, CHR ''n'']
      else if c = CHR 0x0D then [CHR 0x5C, CHR ''r'']
      else if c = CHR 0x09 then [CHR 0x5C, CHR ''t'']
      else if c = CHR 0x08 then [CHR 0x5C, CHR ''b'']
      else if c = CHR 0x0C then [CHR 0x5C, CHR ''f'']
      else if c < CHR 0x20
      then [CHR 0x5C, CHR ''u'', CHR ''0'', CHR ''0'',
            digitChar (of_char c div 16), digitChar (of_char c mod 16)]
      else [c])"

definition stringifyString :: "string \<Rightarrow> string" where
  "stringifyString s = [CHR 0x22] @ concat (map escapeChar s) @ [CHR 0x22]"

definition stringifyBool :: "bool \<Rightarrow> string" where
  "stringifyBool b = (if b then ''true'' else ''false'')"

text \<open>
  \<open>createHash\<close>: DJB2. \<open>hash\<close> is a 32-bit integer: \<open>(hash << 5) + hash + char\<close> is
  brought back to 32 bits by \<open>hash & hash\<close>, so the accumulator is a \<open>32 word\<close> read as
  two's complement at the end. \<open>charCodeAt\<close> gives the code unit of the character.
\<close>

definition hashStep :: "32 word \<Rightarrow> char \<Rightarrow> 32 word" where
  "hashStep hash c = (let char = of_nat (of_char c) in push_bit 5 hash + hash + char)"

definition createHash :: "string \<Rightarrow> string" where
  "createHash data =
     (if length data = 0 then toStringRadix 36 5381
      else toStringRadix 36 (nat \<bar>sint (foldl hashStep 5381 data)\<bar>))"

text \<open>
  The sampling loop \<open>for (let i = 0; i < data.length; i += step) samples.push(data[i])\<close>.
  It is only entered with \<open>step \<ge> 10\<close> (more than 1000 items, at most 100 samples); with
  \<open>step = 0\<close> the source would not leave the loop, and the model stops.
\<close>

function sampleLoop :: "nat \<Rightarrow> nat \<Rightarrow> 'a list \<Rightarrow> 'a list" where
  "sampleLoop i step data =
     (if i < length data \<and> 0 < step then data ! i # sampleLoop (i + step) step data else [])"
  by pat_completeness auto

termination sampleLoop
  by (relation "measure (\<lambda>(i, step, data). length data - i)") auto

declare sampleLoop.simps [simp del]

text \<open>
  \<open>createOptimizedDataHash\<close>. \<open>Math.ceil(data.length * 0.01)\<close> is the ceiling of a
  hundredth of the length; \<open>Math.floor(data.length / sampleSize)\<close> is integer division.
\<close>

definition createOptimizedDataHash :: "('a \<Rightarrow> string) \<Rightarrow> 'a list \<Rightarrow> string" where
  "createOptimizedDataHash ser data =
     (if length data = 0 then ''empty''
      else if length data \<le> 1000 then createHash (stringifyArray ser data)
      else
        (let sampleSize = min 100 ((length data + 99) div 100);
             step = length data div sampleSize;
             samples = sampleLoop 0 step data;
             keyElements =
               [data ! 0, data ! (length data div 2), data ! (length data - 1)] @ samples;
             hashInput =
               toStringRadix 10 (length data) @ ''_'' @ stringifyArray ser keyElements
         in createHash hashInput))"

text \<open>
  \<open>createOptimizedFunctionHash\<close>: the transform enters only through its source text
  \<open>fnString = transformFn.toString()\<close>.
\<close>

definition createOptimizedFunctionHash :: "string \<Rightarrow> string" where
  "createOptimizedFunctionHash fnString =
     createHash
       (''{'' @ stringifyString ''length'' @ '':'' @ toStringRadix 10 (length fnString)
        @ '','' @ stringifyString ''hasReturn'' @ '':''
        @ stringifyBool (str_includes fnString ''return'')
        @ '','' @ stringifyString ''hasArrow'' @ '':''
        @ stringifyBool (str_includes fnString ''=>'')
        @ '','' @ stringifyString ''hasAsync'' @ '':''
        @ stringifyBool (str_includes fnString ''async'')
        @ '','' @ stringifyString ''hasAwait'' @ '':''
        @ stringifyBool (str_includes fnString ''await'')
        @ '','' @ stringifyString ''firstChars'' @ '':''
        @ stringifyString (take 50 fnString)
        @ '','' @ stringifyString ''lastChars'' @ '':''
        @ stringifyString (drop (length fnString - 50) fnString)
        @ ''}'')"

text \<open>
  \<open>generateKey\<close> with its memo \<open>keyCache\<close>, a \<open>Map\<close> from the quick identifier
  \<open>`${data.length}_${transformFn.toString().length}`\<close> to the key generated first for it.
  The function returns the key and the updated memo. The timing statistics are left out.
\<close>

type_synonym keyCache = "(string \<times> string) list"

definition generateKey ::
  "('a \<Rightarrow> string) \<Rightarrow> keyCache \<Rightarrow> 'a list \<Rightarrow> string \<Rightarrow> string \<times> keyCache" where
  "generateKey ser keyCache data fnString =
     (let quickId = toStringRadix 10 (length data) @ ''_'' @ toStringRadix 10 (length fnString)
      in case map_of keyCache quickId of
           Some cachedKey \<Rightarrow> (cachedKey, keyCache)
         | None \<Rightarrow>
            (let dataHash = createOptimizedDataHash ser data;
                 fnHash = createOptimizedFunctionHash fnString;
                 key = CACHE_VERSION @ ''_'' @ dataHash @ ''_'' @ fnHash
             in (key, if length keyCache < 1000 then keyCache @ [(quickId, key)] else keyCache)))"

section \<open>Cache data model (types/cache.ts)\<close>

text \<open>Times are \<open>Date.now()\<close> values: integer milliseconds.\<close>

record CacheMetadata =
  timestamp :: int
  lastAccessed :: int
  dataHash :: string
  transformHash :: string
  totalSize :: nat
  meta_batchSize :: nat

record 'r CacheBatch =
  batch_index :: int
  batch_data :: "'r list"
  batch_timestamp :: int
  batch_size :: nat

record 'r CacheEntry =
  entry_key :: string
  entry_data :: "'r list"
  metadata :: CacheMetadata
  batches :: "'r CacheBatch list"
  isComplete :: bool
  version :: string

record 'r CacheResult =
  result_data :: "'r list"
  result_isComplete :: bool
  result_timestamp :: int
  result_batches :: "'r CacheBatch list"

text \<open>
  What an object store holds under a key: an object of the shape of \<open>CacheEntry\<close>, or
  anything else (\<open>Malformed\<close>), which \<open>validateCacheEntry\<close> rejects on its type checks.
  A malformed value is told by the first check that it fails: it is no object, it lacks
  the key, the metadata or the data array, its metadata has a field of the wrong type,
  its version is missing or incompatible, or one of its batches has the wrong shape.
\<close>

datatype shape_fault =
  NoObject
  | MissingFields
  | InvalidMetadata
  | IncompatibleVersion
  | InvalidBatch

datatype 'r stored = Malformed shape_fault | Entry "'r CacheEntry"

section \<open>IndexedDBWrapperImpl (indexedDBWrapper.ts)\<close>

text \<open>
  The object store \<open>cache_entries\<close> with key path \<open>key\<close>, as an association list with
  distinct keys. \<open>put\<close> can be rejected by the database: \<open>putFault\<close> says, for the
  \<open>n\<close>-th call of \<open>put\<close>, which error the wrapper rejects with, if any; \<open>get\<close>,
  \<open>delete\<close> and \<open>getAllKeys\<close> are modelled as succeeding.
\<close>

record 'r IndexedDBWrapperImpl =
  objects :: "(string \<times> 'r stored) list"
  putCalls :: nat
  putFault :: "nat \<Rightarrow> js_error option"

text \<open>
  What \<open>put\<close> rejects with when the request fails with a database error of message
  \<open>msg\<close>: the \<open>onerror\<close> handler wraps it in a \<open>CacheError\<close> of type \<open>UNKNOWN_ERROR\<close>.
\<close>

definition putRejection :: "string \<Rightarrow> js_error" where
  "putRejection msg = CacheError (''Failed to put data: '' @ msg) UNKNOWN_ERROR"

text \<open>
  \<open>store.put({ key, ...value })\<close>: the spread of \<open>value\<close> comes last, so the stored
  object keeps the \<open>key\<close> field of \<open>value\<close>, and the key path files it under that.
\<close>

definition dbPut ::
  "'r IndexedDBWrapperImpl \<Rightarrow> string \<Rightarrow> 'r CacheEntry
     \<Rightarrow> (js_error + unit) \<times> 'r IndexedDBWrapperImpl" where
  "dbPut w k v =
     (case putFault w (putCalls w) of
        Some e \<Rightarrow> (Inl e, w\<lparr>putCalls := putCalls w + 1\<rparr>)
      | None \<Rightarrow>
          (Inr (), w\<lparr>putCalls := putCalls w + 1,
                      objects := AList.update (entry_key v) (Entry v) (objects w)\<rparr>))"

definition dbGet :: "'r IndexedDBWrapperImpl \<Rightarrow> string \<Rightarrow> 'r stored option" where
  "dbGet w k = map_of (objects w) k"

definition dbDelete :: "'r IndexedDBWrapperImpl \<Rightarrow> string \<Rightarrow> 'r IndexedDBWrapperImpl" where
  "dbDelete w k = w\<lparr>objects := AList.delete k (objects w)\<rparr>"

text \<open>\<open>getAllKeys\<close> returns the keys in ascending order.\<close>

definition dbGetAllKeys :: "'r IndexedDBWrapperImpl \<Rightarrow> string list" where
  "dbGetAllKeys w = sort (map fst (objects w))"

section \<open>CacheManagerImpl (cacheManager.ts)\<close>

record 'r QueuedBatch =
  queued_index :: int
  queued_data :: "'r list"
  queued_timestamp :: int

text \<open>
  An entry of \<open>batchQueue\<close>: the batches waiting for the deferred write, and whether the
  50 ms timer that will call \<open>flushBatchQueue\<close> is set.
\<close>

record 'r QueueEntry =
  queue_batches :: "'r QueuedBatch list"
  queue_timer :: bool

record 'r CacheManagerImpl =
  dbWrapper :: "'r IndexedDBWrapperImpl"
  config_maxAge :: int
  config_maxSize :: nat
  isInitialized :: bool
  errorRecovery :: ErrorRecoveryStrategyImpl
  batchQueue :: "(string \<times> 'r QueueEntry) list"
  compressionEnabled :: bool

text \<open>\<open>CACHE_VERSION.split(".")[0]\<close>\<close>

definition majorVersion :: string where
  "majorVersion = takeWhile (\<lambda>c. c \<noteq> CHR ''.'') CACHE_VERSION"

definition validateCacheEntry :: "'r stored \<Rightarrow> js_error + 'r CacheEntry" where
  "validateCacheEntry rawEntry =
     (case rawEntry of
        Malformed fault \<Rightarrow>
          Inl (CacheError
            (case fault of
               NoObject \<Rightarrow> ''Invalid cache entry structure''
             | MissingFields \<Rightarrow> ''Missing required cache entry fields''
             | InvalidMetadata \<Rightarrow> ''Invalid cache metadata structure''
             | IncompatibleVersion \<Rightarrow> ''Incompatible cache version''
             | InvalidBatch \<Rightarrow> ''Invalid batch structure'')
            DATA_CORRUPTION)
      | Entry entry \<Rightarrow>
          if entry_key entry = []
          then Inl (CacheError ''Missing required cache entry fields'' DATA_CORRUPTION)
          else if version entry = [] \<or> \<not> prefix majorVersion (version entry)
          then Inl (CacheError ''Incompatible cache version'' DATA_CORRUPTION)
          else Inr entry)"

definition isCacheExpired :: "int \<Rightarrow> 'r CacheManagerImpl \<Rightarrow> 'r CacheEntry \<Rightarrow> bool" where
  "isCacheExpired now cm entry =
     (let age = now - timestamp (metadata entry) in age > config_maxAge cm)"

definition calculateDataSize :: "('r \<Rightarrow> string) \<Rightarrow> 'r list \<Rightarrow> nat" where
  "calculateDataSize ser xs = length (stringifyArray ser xs) * 2"

definition isQuotaExceededError :: "js_error \<Rightarrow> bool" where
  "isQuotaExceededError error =
     (let message = toLowerCase (err_message error)
      in str_includes message ''quota'' \<or> str_includes message ''storage''
         \<or> str_includes message ''disk'' \<or> err_name error = ''QuotaExceededError'')"

text \<open>
  \<open>compressBatchData\<close>: keeps the first item of every JSON representation; \<open>seen\<close> is
  the set of the representations met so far.
\<close>

fun compressLoop :: "('r \<Rightarrow> string) \<Rightarrow> string list \<Rightarrow> 'r list \<Rightarrow> 'r list" where
  "compressLoop ser seen [] = []"
| "compressLoop ser seen (item # rest) =
     (let k = ser item
      in if k \<in> set seen then compressLoop ser seen rest
         else item # compressLoop ser (k # seen) rest)"

definition compressBatchData :: "('r \<Rightarrow> string) \<Rightarrow> 'r list \<Rightarrow> 'r list" where
  "compressBatchData ser xs =
     (if length xs \<le> 1 then xs
      else (let compressed = compressLoop ser [] xs
            in if length compressed < length xs then compressed else xs))"

text \<open>
  \<open>combineBatchData\<close>: \<open>Array.prototype.sort\<close> with the comparator
  \<open>a.index - b.index\<close> is a stable sort by index.
\<close>

definition combineBatchData :: "'r CacheBatch list \<Rightarrow> 'r list" where
  "combineBatchData bs =
     (let sortedBatches = sort_key batch_index bs
      in concat (map batch_data sortedBatches))"

definition newCacheEntry ::
  "('r \<Rightarrow> string) \<Rightarrow> int \<Rightarrow> 'r CacheManagerImpl \<Rightarrow> string \<Rightarrow> 'r list \<Rightarrow> 'r CacheEntry" where
  "newCacheEntry ser now cm k xs =
     \<lparr>entry_key = k, entry_data = [],
      metadata = \<lparr>timestamp = now, lastAccessed = now,
                  dataHash = createHash (stringifyArray ser xs), transformHash = [],
                  totalSize = 0,
                  meta_batchSize = (if config_maxSize cm \<noteq> 0 then config_maxSize cm else 500)\<rparr>,
      batches = [], isComplete = False, version = CACHE_VERSION\<rparr>"

definition getOrCreateCacheEntry ::
  "('r \<Rightarrow> string) \<Rightarrow> int \<Rightarrow> 'r CacheManagerImpl \<Rightarrow> string \<Rightarrow> 'r list \<Rightarrow> 'r CacheEntry" where
  "getOrCreateCacheEntry ser now cm k xs =
     (case dbGet (dbWrapper cm) k of
        Some existingEntry \<Rightarrow>
          (case validateCacheEntry existingEntry of
             Inr validatedEntry \<Rightarrow> validatedEntry
           | Inl _ \<Rightarrow> newCacheEntry ser now cm k xs)
      | None \<Rightarrow> newCacheEntry ser now cm k xs)"

text \<open>
  The manager \<open>new CacheManagerImpl()\<close> with the defaults of \<open>DEFAULT_CACHE_CONFIG\<close>,
  after a successful \<open>initialize()\<close> over an empty database that accepts every write.
\<close>

definition initializedManager :: "'r CacheManagerImpl" where
  "initializedManager =
     \<lparr>dbWrapper = \<lparr>objects = [], putCalls = 0, putFault = (\<lambda>_. None)\<rparr>,
      config_maxAge = 24 * 60 * 60 * 1000, config_maxSize = 100, isInitialized = True,
      errorRecovery = newErrorRecoveryStrategy, batchQueue = [], compressionEnabled = True\<rparr>"

subsection \<open>Incremental batch storage\<close>

text \<open>
  \<open>storeBatch\<close> only queues the batch and (re)sets the timer of the deferred write. The
  performance counters are left out.
\<close>

definition storeBatch ::
  "int \<Rightarrow> 'r CacheManagerImpl \<Rightarrow> string \<Rightarrow> 'r list \<Rightarrow> int \<Rightarrow> 'r CacheManagerImpl" where
  "storeBatch now cm k batch batchIndex =
     (if \<not> isInitialized cm \<or> isInFallbackMode (errorRecovery cm) then cm
      else
        (let queueEntry =
               (case map_of (batchQueue cm) k of
                  None \<Rightarrow> \<lparr>queue_batches = [], queue_timer = False\<rparr>
                | Some q \<Rightarrow> q);
             queued = \<lparr>queued_index = batchIndex, queued_data = batch, queued_timestamp = now\<rparr>
         in cm\<lparr>batchQueue :=
                AList.update k
                  \<lparr>queue_batches = queue_batches queueEntry @ [queued], queue_timer = True\<rparr>
                  (batchQueue cm)\<rparr>))"

text \<open>
  The body of the loop of \<open>flushBatchQueue\<close>: \<open>findIndex\<close> finds the first batch with the
  same index, which is overwritten; without one the batch is pushed at the end.
\<close>

fun upsertBatch :: "'r CacheBatch \<Rightarrow> 'r CacheBatch list \<Rightarrow> 'r CacheBatch list" where
  "upsertBatch b [] = [b]"
| "upsertBatch b (x # xs) =
     (if batch_index x = batch_index b then b # xs else x # upsertBatch b xs)"

definition toBatchData ::
  "('r \<Rightarrow> string) \<Rightarrow> 'r CacheManagerImpl \<Rightarrow> 'r QueuedBatch \<Rightarrow> 'r CacheBatch" where
  "toBatchData ser cm queuedBatch =
     \<lparr>batch_index = queued_index queuedBatch,
      batch_data = (if compressionEnabled cm
                    then compressBatchData ser (queued_data queuedBatch)
                    else queued_data queuedBatch),
      batch_timestamp = queued_timestamp queuedBatch,
      batch_size = calculateDataSize ser (queued_data queuedBatch)\<rparr>"

text \<open>
  The entry \<open>flushBatchQueue\<close> builds before it writes: the queued batches upserted in
  their order, the batches sorted by index, \<open>data\<close> recombined and the metadata updated.
\<close>

definition flushedEntry ::
  "('r \<Rightarrow> string) \<Rightarrow> int \<Rightarrow> 'r CacheManagerImpl \<Rightarrow> 'r CacheEntry \<Rightarrow> 'r QueuedBatch list
     \<Rightarrow> 'r CacheEntry" where
  "flushedEntry ser now cm cacheEntry queued =
     (let upserted =
            foldl (\<lambda>bs queuedBatch. upsertBatch (toBatchData ser cm queuedBatch) bs)
              (batches cacheEntry) queued;
          sortedBatches = sort_key batch_index upserted;
          combined = combineBatchData sortedBatches
      in cacheEntry
           \<lparr>batches := sortedBatches, entry_data := combined,
            metadata := (metadata cacheEntry)
              \<lparr>lastAccessed := now, totalSize := calculateDataSize ser combined\<rparr>\<rparr>)"

definition flushOperation ::
  "('r \<Rightarrow> string) \<Rightarrow> int \<Rightarrow> string \<Rightarrow> 'r QueueEntry \<Rightarrow> 'r CacheManagerImpl
     \<Rightarrow> (js_error + unit) \<times> 'r CacheManagerImpl" where
  "flushOperation ser now k queueEntry cm =
     (let cacheEntry = getOrCreateCacheEntry ser now cm k [];
          cacheEntry1 = flushedEntry ser now cm cacheEntry (queue_batches queueEntry);
          (r, w) = dbPut (dbWrapper cm) k cacheEntry1
      in (r, cm\<lparr>dbWrapper := w\<rparr>))"

text \<open>
  \<open>flushBatchQueue\<close>, what the timer set by \<open>storeBatch\<close> calls. The recovery wrapper
  turns every failure of the operation into its fallback value, so the \<open>catch\<close> block after
  \<open>await flushOperation()\<close> is never entered, and the queue is emptied in every case.
\<close>

definition flushBatchQueue ::
  "('r \<Rightarrow> string) \<Rightarrow> int \<Rightarrow> 'r CacheManagerImpl \<Rightarrow> string \<Rightarrow> 'r CacheManagerImpl" where
  "flushBatchQueue ser now cm k =
     (case map_of (batchQueue cm) k of
        None \<Rightarrow> cm
      | Some queueEntry \<Rightarrow>
          if queue_batches queueEntry = [] then cm
          else
            (let (_, s1, cm1) =
                   createRecoveryWrapper (''flush_batch_queue_'' @ k)
                     (flushOperation ser now k queueEntry) () (errorRecovery cm, cm);
                 cm2 = cm1\<lparr>errorRecovery := s1\<rparr>
             in cm2\<lparr>batchQueue :=
                    AList.update k \<lparr>queue_batches = [], queue_timer = False\<rparr>
                      (batchQueue cm2)\<rparr>))"

subsection \<open>Quota handling and completion\<close>

text \<open>
  \<open>handleStorageQuotaExceeded\<close> deletes the least recently accessed quarter of the valid
  entries, at least one. When no entry validates, \<open>entriesWithTimestamps[0]\<close> is
  \<open>undefined\<close>; reading its \<open>key\<close> throws inside the inner \<open>try\<close> and again in its
  \<open>catch\<close>, and the outer \<open>catch\<close> rethrows.
\<close>

definition entriesWithTimestamps :: "'r CacheManagerImpl \<Rightarrow> string list \<Rightarrow> (string \<times> int) list" where
  "entriesWithTimestamps cm allKeys =
     concat (map (\<lambda>k.
       case dbGet (dbWrapper cm) k of
         None \<Rightarrow> []
       | Some entry \<Rightarrow>
          (case validateCacheEntry entry of
             Inr validatedEntry \<Rightarrow> [(k, lastAccessed (metadata validatedEntry))]
           | Inl _ \<Rightarrow> [])) allKeys)"

definition deleteKeys :: "'r CacheManagerImpl \<Rightarrow> string list \<Rightarrow> 'r CacheManagerImpl" where
  "deleteKeys cm ks = cm\<lparr>dbWrapper := foldl dbDelete (dbWrapper cm) ks\<rparr>"

definition handleStorageQuotaExceeded ::
  "'r CacheManagerImpl \<Rightarrow> (js_error + unit) \<times> 'r CacheManagerImpl" where
  "handleStorageQuotaExceeded cm =
     (let allKeys = dbGetAllKeys (dbWrapper cm)
      in if allKeys = [] then (Inr (), cm)
         else
           (let sorted = sort_key snd (entriesWithTimestamps cm allKeys);
                entriesToRemove = max 1 (length sorted div 4)
            in if length sorted < entriesToRemove
               then (Inl \<lparr>err_name = ''TypeError'',
                          err_message = ''Cannot read properties of undefined'',
                          err_type = None\<rparr>,
                     deleteKeys cm (map fst sorted))
               else (Inr (), deleteKeys cm (map fst (take entriesToRemove sorted)))))"

text \<open>
  \<open>markComplete\<close>. After a failure that \<open>isQuotaExceededError\<close> recognises it cleans up
  and calls itself again; nothing bounds these calls, so the model takes fuel: the number
  of nested calls it may make. \<open>None\<close> is "still running when the fuel ran out".
\<close>

fun markComplete ::
  "('r \<Rightarrow> string) \<Rightarrow> int \<Rightarrow> nat \<Rightarrow> 'r CacheManagerImpl \<Rightarrow> string \<Rightarrow> 'r list
     \<Rightarrow> 'r CacheManagerImpl option" where
  "markComplete ser now 0 cm k totalResult = None"
| "markComplete ser now (Suc fuel) cm k totalResult =
     (if \<not> isInitialized cm then Some cm
      else
        (let cacheEntry = getOrCreateCacheEntry ser now cm k totalResult;
             cacheEntry1 = cacheEntry
               \<lparr>isComplete := True, entry_data := totalResult,
                metadata := (metadata cacheEntry)
                  \<lparr>lastAccessed := now, totalSize := calculateDataSize ser totalResult\<rparr>\<rparr>;
             (r, w) = dbPut (dbWrapper cm) k cacheEntry1;
             cm1 = cm\<lparr>dbWrapper := w\<rparr>
         in case r of
              Inr _ \<Rightarrow> Some cm1
            | Inl error \<Rightarrow>
                if isQuotaExceededError error
                then (case handleStorageQuotaExceeded cm1 of
                        (Inr _, cm2) \<Rightarrow> markComplete ser now fuel cm2 k totalResult
                      | (Inl _, cm2) \<Rightarrow> Some cm2)
                else Some cm1))"

declare markComplete.simps [simp del]

subsection \<open>Lookup\<close>

definition updateLastAccessed ::
  "int \<Rightarrow> 'r CacheManagerImpl \<Rightarrow> string \<Rightarrow> 'r CacheEntry \<Rightarrow> 'r CacheManagerImpl" where
  "updateLastAccessed now cm k entry =
     (let updatedEntry = entry\<lparr>metadata := (metadata entry)\<lparr>lastAccessed := now\<rparr>\<rparr>;
          (_, w) = dbPut (dbWrapper cm) k updatedEntry
      in cm\<lparr>dbWrapper := w\<rparr>)"

text \<open>
  The operation \<open>checkCache\<close> wraps. \<open>validateCacheEntry\<close> throws on an invalid entry, so
  the operation fails there. The preloading it triggers runs on timers and only reads.
\<close>

definition checkCacheOperation ::
  "int \<Rightarrow> string \<Rightarrow> 'r CacheManagerImpl
     \<Rightarrow> (js_error + 'r CacheResult option) \<times> 'r CacheManagerImpl" where
  "checkCacheOperation now k cm =
     (case dbGet (dbWrapper cm) k of
        None \<Rightarrow> (Inr None, cm)
      | Some rawEntry \<Rightarrow>
          (case validateCacheEntry rawEntry of
             Inl e \<Rightarrow> (Inl e, cm)
           | Inr cacheEntry \<Rightarrow>
               if isCacheExpired now cm cacheEntry
               then (Inr None, cm\<lparr>dbWrapper := dbDelete (dbWrapper cm) k\<rparr>)
               else (Inr (Some \<lparr>result_data = entry_data cacheEntry,
                                 result_isComplete = isComplete cacheEntry,
                                 result_timestamp = timestamp (metadata cacheEntry),
                                 result_batches = batches cacheEntry\<rparr>),
                     updateLastAccessed now cm k cacheEntry)))"

definition checkCache ::
  "int \<Rightarrow> 'r CacheManagerImpl \<Rightarrow> string \<Rightarrow> 'r CacheResult option \<times> 'r CacheManagerImpl" where
  "checkCache now cm k =
     (if \<not> isInitialized cm \<or> isInFallbackMode (errorRecovery cm) then (None, cm)
      else
        (let (r, s1, cm1) =
               createRecoveryWrapper (''cache_check_'' @ k) (checkCacheOperation now k) None
                 (errorRecovery cm, cm)
         in (r, cm1\<lparr>errorRecovery := s1\<rparr>)))"

subsection \<open>Expiration and eviction sweep\<close>

record 'r ValidEntry =
  valid_key :: string
  valid_entry :: "'r CacheEntry"
  valid_lastAccessed :: int
  valid_size :: nat

datatype 'r classification =
  IsCorrupted
  | IsExpired "'r CacheEntry"
  | IsValid "'r ValidEntry"

text \<open>
  One turn of the loop of \<open>analyzeEntriesForCleanup\<close>: a key without an object or with
  one that does not validate is corrupted.
\<close>

definition classifyEntry ::
  "('r \<Rightarrow> string) \<Rightarrow> int \<Rightarrow> 'r CacheManagerImpl \<Rightarrow> string \<Rightarrow> 'r classification" where
  "classifyEntry ser now cm k =
     (case dbGet (dbWrapper cm) k of
        None \<Rightarrow> IsCorrupted
      | Some rawEntry \<Rightarrow>
          (case validateCacheEntry rawEntry of
             Inl _ \<Rightarrow> IsCorrupted
           | Inr entry \<Rightarrow>
               if isCacheExpired now cm entry then IsExpired entry
               else IsValid
                 \<lparr>valid_key = k, valid_entry = entry,
                  valid_lastAccessed = lastAccessed (metadata entry),
                  valid_size = (if totalSize (metadata entry) \<noteq> 0
                                then totalSize (metadata entry)
                                else calculateDataSize ser (entry_data entry))\<rparr>))"

definition expiredOf ::
  "('r \<Rightarrow> string) \<Rightarrow> int \<Rightarrow> 'r CacheManagerImpl \<Rightarrow> string list
     \<Rightarrow> (string \<times> 'r CacheEntry) list" where
  "expiredOf ser now cm allKeys =
     concat (map (\<lambda>k. case classifyEntry ser now cm k of IsExpired e \<Rightarrow> [(k, e)] | _ \<Rightarrow> [])
       allKeys)"

definition validOf ::
  "('r \<Rightarrow> string) \<Rightarrow> int \<Rightarrow> 'r CacheManagerImpl \<Rightarrow> string list \<Rightarrow> 'r ValidEntry list" where
  "validOf ser now cm allKeys =
     concat (map (\<lambda>k. case classifyEntry ser now cm k of IsValid v \<Rightarrow> [v] | _ \<Rightarrow> [])
       allKeys)"

definition corruptedOf ::
  "('r \<Rightarrow> string) \<Rightarrow> int \<Rightarrow> 'r CacheManagerImpl \<Rightarrow> string list \<Rightarrow> string list" where
  "corruptedOf ser now cm allKeys =
     concat (map (\<lambda>k. case classifyEntry ser now cm k of IsCorrupted \<Rightarrow> [k] | _ \<Rightarrow> [])
       allKeys)"

record 'r CleanupAnalysis =
  expired :: "(string \<times> 'r CacheEntry) list"
  valid :: "'r ValidEntry list"
  corrupted :: "string list"

text \<open>
  \<open>analyzeEntriesForCleanup\<close> fills the three lists in the order of the keys and deletes
  the corrupted entries at once.
\<close>

definition analyzeEntriesForCleanup ::
  "('r \<Rightarrow> string) \<Rightarrow> int \<Rightarrow> 'r CacheManagerImpl \<Rightarrow> string list
     \<Rightarrow> 'r CleanupAnalysis \<times> 'r CacheManagerImpl" where
  "analyzeEntriesForCleanup ser now cm allKeys =
     (let analysis = \<lparr>expired = expiredOf ser now cm allKeys,
                      valid = validOf ser now cm allKeys,
                      corrupted = corruptedOf ser now cm allKeys\<rparr>
      in (analysis, deleteKeys cm (corrupted analysis)))"

definition cleanupExpiredEntries ::
  "'r CacheManagerImpl \<Rightarrow> (string \<times> 'r CacheEntry) list \<Rightarrow> nat \<times> 'r CacheManagerImpl" where
  "cleanupExpiredEntries cm expiredEntries =
     (length expiredEntries, deleteKeys cm (map fst expiredEntries))"

text \<open>
  \<open>cleanupOldEntriesIfNeeded\<close>. \<open>Math.floor(maxSize * 0.75)\<close> is \<open>3 * maxSize div 4\<close>,
  and \<open>Math.max(0, length - targetCount)\<close> is the truncating subtraction of \<open>nat\<close>.
\<close>

definition cleanupOldEntriesIfNeeded ::
  "'r CacheManagerImpl \<Rightarrow> 'r ValidEntry list \<Rightarrow> nat \<times> 'r CacheManagerImpl" where
  "cleanupOldEntriesIfNeeded cm validEntries =
     (if length validEntries \<le> config_maxSize cm then (0, cm)
      else
        (let sortedEntries = sort_key valid_lastAccessed validEntries;
             targetCount = (config_maxSize cm * 3) div 4;
             entriesToRemove = length sortedEntries - targetCount
         in if entriesToRemove = 0 then (0, cm)
            else (entriesToRemove,
                  deleteKeys cm (map valid_key (take entriesToRemove sortedEntries)))))"

text \<open>
  The loops of \<open>performAggressiveCleanup\<close> and \<open>performPreventiveCleanup\<close> that collect
  the access times: an entry that cannot be validated counts with time 0.
\<close>

definition entriesWithTimes :: "'r CacheManagerImpl \<Rightarrow> string list \<Rightarrow> (string \<times> int) list" where
  "entriesWithTimes cm allKeys =
     map (\<lambda>k.
       case dbGet (dbWrapper cm) k of
         None \<Rightarrow> (k, 0)
       | Some rawEntry \<Rightarrow>
          (case validateCacheEntry rawEntry of
             Inr entry \<Rightarrow> (k, lastAccessed (metadata entry))
           | Inl _ \<Rightarrow> (k, 0))) allKeys"

definition performAggressiveCleanup :: "'r CacheManagerImpl \<Rightarrow> 'r CacheManagerImpl" where
  "performAggressiveCleanup cm =
     (let allKeys = dbGetAllKeys (dbWrapper cm)
      in if allKeys = [] then cm
         else
           (let sorted = sort_key snd (entriesWithTimes cm allKeys);
                entriesToRemove = length sorted div 2
            in deleteKeys cm (map fst (take entriesToRemove sorted))))"

definition performPreventiveCleanup :: "'r CacheManagerImpl \<Rightarrow> 'r CacheManagerImpl" where
  "performPreventiveCleanup cm =
     (let allKeys = dbGetAllKeys (dbWrapper cm)
      in if 5 * length allKeys \<le> 4 * config_maxSize cm then cm
         else
           (let sorted = sort_key snd (entriesWithTimes cm allKeys);
                entriesToRemove = length sorted div 5
            in deleteKeys cm (map fst (take entriesToRemove sorted))))"

text \<open>
  What \<open>navigator.storage.estimate\<close> gives \<open>checkAndHandleStorageQuota\<close>: no such API,
  a rejected promise, or the usage and the quota in bytes (0 for a missing field). The
  percentage \<open>usage / quota * 100\<close> is compared in exact arithmetic.
\<close>

datatype storage_estimate = NoStorageApi | EstimateFails | Estimate nat nat

definition checkAndHandleStorageQuota ::
  "storage_estimate \<Rightarrow> 'r CacheManagerImpl \<Rightarrow> 'r CacheManagerImpl" where
  "checkAndHandleStorageQuota est cm =
     (case est of
        NoStorageApi \<Rightarrow> cm
      | EstimateFails \<Rightarrow> performPreventiveCleanup cm
      | Estimate usage quota \<Rightarrow>
          if quota \<noteq> 0 \<and> usage \<noteq> 0
          then (if usage * 100 > 90 * quota then performAggressiveCleanup cm
                else if usage * 100 > 75 * quota then performPreventiveCleanup cm
                else cm)
          else cm)"

definition cleanupExpired ::
  "('r \<Rightarrow> string) \<Rightarrow> int \<Rightarrow> storage_estimate \<Rightarrow> 'r CacheManagerImpl \<Rightarrow> 'r CacheManagerImpl" where
  "cleanupExpired ser now est cm =
     (if \<not> isInitialized cm then cm
      else
        (let allKeys = dbGetAllKeys (dbWrapper cm)
         in if allKeys = [] then cm
            else
              (let (cleanupAnalysis, cm1) = analyzeEntriesForCleanup ser now cm allKeys;
                   (expiredCount, cm2) = cleanupExpiredEntries cm1 (expired cleanupAnalysis);
                   (oldCount, cm3) = cleanupOldEntriesIfNeeded cm2 (valid cleanupAnalysis)
               in checkAndHandleStorageQuota est cm3)))"



section \<open>The scheduler hook (useProgressiveCompute.ts)\<close>

subsection \<open>The numbers of the JavaScript runtime\<close>

text \<open>
  The numbers of the runtime are IEEE 754 doubles: every \<open>/\<close> and \<open>*\<close> returns the double
  nearest to the exact result, a tie going to the even significand. A finite double is a
  rational \<open>m * 2 ^ e\<close> with \<open>\<bar>m\<bar> < 2 ^ 53\<close> and \<open>- 1074 \<le> e\<close>. \<open>bitLength n\<close> is the
  number of binary digits of \<open>n\<close>, \<open>pow2 e\<close> is \<open>2 ^ e\<close> for an integer \<open>e\<close>, and
  \<open>binade x\<close> is, for \<open>0 < x\<close>, the exponent \<open>e\<close> with \<open>2 ^ e \<le> x < 2 ^ (e + 1)\<close>.
\<close>

fun bitLength :: "nat \<Rightarrow> nat" where
  "bitLength n = (if n = 0 then 0 else Suc (bitLength (n div 2)))"

declare bitLength.simps [simp del]

definition pow2 :: "int \<Rightarrow> rat" where
  "pow2 e = (if 0 \<le> e then 2 ^ nat e else 1 / 2 ^ nat (- e))"

definition binade :: "rat \<Rightarrow> int" where
  "binade x =
     (if 1 \<le> x then int (bitLength (nat \<lfloor>x\<rfloor>)) - 1
      else - int (bitLength (nat (\<lceil>1 / x\<rceil> - 1))))"

definition roundTiesToEven :: "rat \<Rightarrow> int" where
  "roundTiesToEven x =
     (let f = \<lfloor>x\<rfloor>; d = x - of_int f
      in if d < 1 / 2 then f
         else if 1 / 2 < d then f + 1
         else if even f then f else f + 1)"

text \<open>
  \<open>toDouble x\<close> is the double that an operation with the exact result \<open>x\<close> returns: \<open>x\<close>
  rounded to 53 significant binary digits, or to a multiple of \<open>2 ^ - 1074\<close> where it is
  subnormal. The overflow to \<open>Infinity\<close> beyond \<open>2 ^ 1024\<close> is left out; the operands here
  are percentages and quotients of array lengths.
\<close>

definition toDouble :: "rat \<Rightarrow> rat" where
  "toDouble x =
     (if x = 0 then 0
      else
        (let a = \<bar>x\<bar>;
             e = max (binade a - 52) (- 1074);
             m = roundTiesToEven (a / pow2 e)
         in sgn x * (of_int m * pow2 e)))"

subsection \<open>The generator of \<open>createGenerator\<close>\<close>

text \<open>
  \<open>Math.round\<close> gives the integer nearest to its argument, a half going upwards.
  \<open>currentProgress\<close> is
  \<open>Math.min(100, Math.round(((i + chunk.length) / data.length) * 100))\<close>: the sum of two
  array positions is exact, the quotient and the product are rounded to doubles.
\<close>

definition mathRound :: "rat \<Rightarrow> int" where
  "mathRound x = \<lfloor>x + 1 / 2\<rfloor>"

definition currentProgress :: "int \<Rightarrow> nat \<Rightarrow> int" where
  "currentProgress processedItems totalItems =
     min 100
       (mathRound (toDouble (toDouble (of_int processedItems / of_nat totalItems) * 100)))"

text \<open>\<open>Array.prototype.slice(start, end)\<close>, negative positions counting from the end.\<close>

definition jsSlice :: "'a list \<Rightarrow> int \<Rightarrow> int \<Rightarrow> 'a list" where
  "jsSlice xs startPos endPos =
     (let len = int (length xs);
          lo = (if startPos < 0 then max 0 (len + startPos) else min startPos len);
          hi = (if endPos < 0 then max 0 (len + endPos) else min endPos len)
      in take (nat (hi - lo)) (drop (nat lo) xs))"

datatype 'r YieldValue = YieldPause | YieldPartial "'r list" int

text \<open>
  The result of \<open>next()\<close>: a yielded value, or \<open>done\<close> with the returned array; a
  generator that has already returned answers \<open>done\<close> with \<open>undefined\<close> (\<open>None\<close>).
\<close>

datatype 'r IteratorResult = Yielded "'r YieldValue" | Done "'r list option"

text \<open>
  Where the generator is suspended: not yet started, at \<open>yield { type: "pause" }\<close>, at
  \<open>yield { partial, progress }\<close>, or returned.
\<close>

datatype gen_pc = AtStart | AtPauseYield | AtPartialYield | Returned

record 'r ComputeGenerator =
  gen_i :: int
  gen_results :: "'r list"
  gen_pc :: gen_pc

definition createGenerator :: "'r ComputeGenerator" where
  "createGenerator = \<lparr>gen_i = 0, gen_results = [], gen_pc = AtStart\<rparr>"

text \<open>
  From the loop test \<open>i < data.length\<close> to the next \<open>yield\<close> or \<open>return\<close>. The two
  flags are the values of \<open>isCancelledRef\<close> and \<open>isPausedRef\<close> at that moment.
\<close>

definition genLoop ::
  "('t \<Rightarrow> 'r) \<Rightarrow> 't list \<Rightarrow> int \<Rightarrow> bool \<Rightarrow> bool \<Rightarrow> 'r ComputeGenerator
     \<Rightarrow> 'r IteratorResult \<times> 'r ComputeGenerator" where
  "genLoop transformFn xs batchSize cancelled paused g =
     (if \<not> gen_i g < int (length xs)
      then (Done (Some (gen_results g)), g\<lparr>gen_pc := Returned\<rparr>)
      else if cancelled then (Done (Some (gen_results g)), g\<lparr>gen_pc := Returned\<rparr>)
      else if paused then (Yielded YieldPause, g\<lparr>gen_pc := AtPauseYield\<rparr>)
      else
        (let chunk = jsSlice xs (gen_i g) (gen_i g + batchSize);
             transformedChunk = map transformFn chunk;
             results = gen_results g @ transformedChunk;
             progress = currentProgress (gen_i g + int (length chunk)) (length xs)
         in (Yielded (YieldPartial transformedChunk progress),
             g\<lparr>gen_results := results, gen_pc := AtPartialYield\<rparr>)))"

text \<open>
  \<open>generator.next()\<close>. Resumed after the pause yield the generator runs
  \<open>i -= batchSize; continue\<close> and then the loop's \<open>i += batchSize\<close>; resumed after a
  partial yield it runs the loop's \<open>i += batchSize\<close>.
\<close>

definition genNext ::
  "('t \<Rightarrow> 'r) \<Rightarrow> 't list \<Rightarrow> int \<Rightarrow> bool \<Rightarrow> bool \<Rightarrow> 'r ComputeGenerator
     \<Rightarrow> 'r IteratorResult \<times> 'r ComputeGenerator" where
  "genNext transformFn xs batchSize cancelled paused g =
     (case gen_pc g of
        Returned \<Rightarrow> (Done None, g)
      | AtStart \<Rightarrow> genLoop transformFn xs batchSize cancelled paused g
      | AtPauseYield \<Rightarrow>
          genLoop transformFn xs batchSize cancelled paused
            (g\<lparr>gen_i := gen_i g - batchSize + batchSize\<rparr>)
      | AtPartialYield \<Rightarrow>
          genLoop transformFn xs batchSize cancelled paused
            (g\<lparr>gen_i := gen_i g + batchSize\<rparr>))"

subsection \<open>The hook's state and \<open>executeStep\<close>\<close>

text \<open>What the hook asks of the cache manager, in the order of the calls.\<close>

datatype 'r cache_call =
  StoreBatchCall string "'r list" int
  | MarkCompleteCall string "'r list option"

text \<open>
  The refs and the state of one mounted hook. \<open>cacheKey\<close> is set when both
  \<open>cacheManagerRef\<close> and \<open>currentCacheKeyRef\<close> are. \<open>pendingUpdateUI\<close> is the
  \<open>updateUI\<close> closure waiting on \<open>requestAnimationFrame\<close> or its timeout, with its batch
  and progress. \<open>scheduled\<close> counts the continuations \<open>scheduleNextFrame\<close> has registered
  that have not run yet. \<open>handlerPaused\<close> is the \<open>isPaused\<close> flag of the interrupt
  handler. \<open>hook_result\<close> is \<open>None\<close> when \<open>setResult\<close> was given \<open>undefined\<close>.

  \<open>cleanupRegistered\<close> says whether the mount effect has registered the three cleanup
  callbacks with the interrupt handler. It registers them only if the handler exists
  when the effect runs: without the cache option the effect has just created it, with
  the cache option \<open>initCache\<close> has not yet come back from \<open>initialize\<close>.
  \<open>cancelOnPause\<close> says whether the continuation was registered with
  \<open>requestIdleCallback\<close>, whose identifier the third callback cancels; a continuation
  registered with \<open>setTimeout\<close> is never cancelled.

  The state \<open>isComputing\<close> is not part of the record: only the guard of \<open>start()\<close>
  reads it, and the record describes the hook once \<open>start()\<close> has run.
\<close>

record 'r hook =
  generatorRef :: "'r ComputeGenerator option"
  isCancelledRef :: bool
  isPausedRef :: bool
  handlerPaused :: bool
  hook_result :: "'r list option"
  hook_progress :: int
  pendingUpdateUI :: "('r list \<times> int) option"
  scheduled :: nat
  cleanupRegistered :: bool
  cancelOnPause :: bool
  cacheKey :: "string option"
  cacheCalls :: "'r cache_call list"

text \<open>
  \<open>Math.floor((prog ?? 0) / (100 / Math.ceil(data.length / batchSize)))\<close>, each of the
  three quotients rounded to a double.
\<close>

definition batchIndexOf :: "int \<Rightarrow> nat \<Rightarrow> int \<Rightarrow> int" where
  "batchIndexOf prog totalItems batchSize =
     \<lfloor>toDouble (of_int prog
        / toDouble (100 / of_int \<lceil>toDouble (of_nat totalItems / of_int batchSize)\<rceil>))\<rfloor>"

text \<open>
  The \<open>while (true)\<close> loop of \<open>executeStep\<close>. The first argument is the number of turns
  the 16 ms budget still allows: when it is used up the loop breaks and
  \<open>scheduleNextFrame\<close> registers the continuation.
\<close>

fun stepLoop ::
  "('t \<Rightarrow> 'r) \<Rightarrow> 't list \<Rightarrow> int \<Rightarrow> nat \<Rightarrow> 'r hook \<Rightarrow> 'r hook" where
  "stepLoop transformFn xs batchSize 0 h = h\<lparr>scheduled := scheduled h + 1\<rparr>"
| "stepLoop transformFn xs batchSize (Suc budget) h =
     (if isPausedRef h then h
      else if isCancelledRef h then h
      else case generatorRef h of
        None \<Rightarrow> h
      | Some g \<Rightarrow>
          (let (genResult, g1) =
                 genNext transformFn xs batchSize (isCancelledRef h) (isPausedRef h) g;
               h1 = h\<lparr>generatorRef := Some g1\<rparr>
           in case genResult of
                Done v \<Rightarrow>
                  h1\<lparr>hook_result := v, hook_progress := 100,
                     cacheCalls := cacheCalls h1 @
                       (case cacheKey h1 of
                          Some k \<Rightarrow> [MarkCompleteCall k v]
                        | None \<Rightarrow> [])\<rparr>
              | Yielded YieldPause \<Rightarrow> h1
              | Yielded (YieldPartial partial prog) \<Rightarrow>
                  (let h2 = h1\<lparr>pendingUpdateUI := None\<rparr>;
                       h3 = (case cacheKey h2 of
                               Some k \<Rightarrow>
                                 if length partial > 0
                                 then h2\<lparr>cacheCalls := cacheCalls h2 @
                                        [StoreBatchCall k partial
                                           (batchIndexOf prog (length xs) batchSize)]\<rparr>
                                 else h2
                             | None \<Rightarrow> h2);
                       h4 = h3\<lparr>pendingUpdateUI := Some (partial, prog)\<rparr>
                   in stepLoop transformFn xs batchSize budget h4)))"

definition executeStep ::
  "('t \<Rightarrow> 'r) \<Rightarrow> 't list \<Rightarrow> int \<Rightarrow> nat \<Rightarrow> 'r hook \<Rightarrow> 'r hook" where
  "executeStep transformFn xs batchSize budget h =
     (if generatorRef h = None \<or> isCancelledRef h then h
      else stepLoop transformFn xs batchSize (Suc budget) h)"

text \<open>
  The state in which \<open>start()\<close> has created the generator on a cache miss (or without
  cache) and its first continuation is registered and waiting. A hook with a cache key
  was mounted with the cache option, so its cleanup callbacks are not registered; a hook
  without a key is the hook without the cache option, where they are.
\<close>

definition startedHook :: "bool \<Rightarrow> string option \<Rightarrow> 'r hook" where
  "startedHook cancellable k =
     \<lparr>generatorRef = Some createGenerator, isCancelledRef = False, isPausedRef = False,
      handlerPaused = False, hook_result = Some [], hook_progress = 0,
      pendingUpdateUI = None, scheduled = 1, cleanupRegistered = (k = None),
      cancelOnPause = cancellable, cacheKey = k, cacheCalls = []\<rparr>"

text \<open>
  \<open>pause()\<close>: \<open>handlePause\<close> does nothing when the handler is already paused; otherwise
  it runs the registered cleanup callbacks, which cancel the pending \<open>updateUI\<close> and,
  where they can, the continuation registered last.
\<close>

definition pause :: "'r hook \<Rightarrow> 'r hook" where
  "pause h =
     (let h1 = h\<lparr>isPausedRef := True\<rparr>
      in if handlerPaused h1 then h1
         else if cleanupRegistered h1
         then h1\<lparr>handlerPaused := True, pendingUpdateUI := None,
                 scheduled := (if cancelOnPause h1 then scheduled h1 - 1
                               else scheduled h1)\<rparr>
         else h1\<lparr>handlerPaused := True\<rparr>)"

definition resume :: "'r hook \<Rightarrow> 'r hook" where
  "resume h =
     (if \<not> isPausedRef h \<or> generatorRef h = None then h
      else h\<lparr>handlerPaused := False, isPausedRef := False,
             scheduled := scheduled h + 1\<rparr>)"

text \<open>
  What can happen to a started hook: a registered continuation runs \<open>executeStep\<close> (with
  the number of turns its time budget allows beyond the first), the pending \<open>updateUI\<close>
  runs, or the caller pauses or resumes.
\<close>

datatype event = Tick nat | Frame | Pause | Resume

definition updateUI :: "'r hook \<Rightarrow> 'r hook" where
  "updateUI h =
     (case pendingUpdateUI h of
        None \<Rightarrow> h
      | Some (partial, prog) \<Rightarrow>
          h\<lparr>hook_result := map_option (\<lambda>prev. prev @ partial) (hook_result h),
            hook_progress := prog, pendingUpdateUI := None\<rparr>)"

fun hookStep ::
  "('t \<Rightarrow> 'r) \<Rightarrow> 't list \<Rightarrow> int \<Rightarrow> 'r hook \<Rightarrow> event \<Rightarrow> 'r hook" where
  "hookStep transformFn xs batchSize h (Tick budget) =
     (if scheduled h = 0 then h
      else executeStep transformFn xs batchSize budget (h\<lparr>scheduled := scheduled h - 1\<rparr>))"
| "hookStep transformFn xs batchSize h Frame = updateUI h"
| "hookStep transformFn xs batchSize h Pause = pause h"
| "hookStep transformFn xs batchSize h Resume = resume h"

definition runHook ::
  "('t \<Rightarrow> 'r) \<Rightarrow> 't list \<Rightarrow> int \<Rightarrow> 'r hook \<Rightarrow> event list \<Rightarrow> 'r hook" where
  "runHook transformFn xs batchSize h evs = foldl (hookStep transformFn xs batchSize) h evs"

section \<open>Retry bookkeeping\<close>

text \<open>
  C9. For an operation id with no recorded retries and fallback mode off, \<open>shouldRetry\<close>
  holds at counts 0, 1 and 2 and fails after the third increment, and
  \<open>calculateRetryDelay\<close> gives 1000, 2000 and 4000 ms at counts 0, 1 and 2.
\<close>

theorem shouldRetry_three_increments:
  assumes "\<not> fallbackMode s" and "retryCount s operationId = None"
  shows "let s1 = snd (incrementRetryCount s operationId);
             s2 = snd (incrementRetryCount s1 operationId);
             s3 = snd (incrementRetryCount s2 operationId)
         in getRetryCount s operationId = 0 \<and> shouldRetry s operationId
            \<and> calculateRetryDelay s operationId = 1000
            \<and> getRetryCount s1 operationId = 1 \<and> shouldRetry s1 operationId
            \<and> calculateRetryDelay s1 operationId = 2000
            \<and> getRetryCount s2 operationId = 2 \<and> shouldRetry s2 operationId
            \<and> calculateRetryDelay s2 operationId = 4000
            \<and> getRetryCount s3 operationId = 3 \<and> \<not> shouldRetry s3 operationId"
  using assms
  by (simp add: incrementRetryCount_def getRetryCount_def shouldRetry_def
      calculateRetryDelay_def MAX_RETRIES_def RETRY_DELAY_def BACKOFF_MULTIPLIER_def Let_def)

theorem shouldRetry_three_increments_witness:
  "let s = newErrorRecoveryStrategy;
       s1 = snd (incrementRetryCount s ''flush_batch_queue_k'');
       s2 = snd (incrementRetryCount s1 ''flush_batch_queue_k'');
       s3 = snd (incrementRetryCount s2 ''flush_batch_queue_k'')
   in \<not> fallbackMode s \<and> retryCount s ''flush_batch_queue_k'' = None
      \<and> shouldRetry s ''flush_batch_queue_k''
      \<and> calculateRetryDelay s ''flush_batch_queue_k'' = 1000
      \<and> shouldRetry s1 ''flush_batch_queue_k''
      \<and> calculateRetryDelay s1 ''flush_batch_queue_k'' = 2000
      \<and> shouldRetry s2 ''flush_batch_queue_k''
      \<and> calculateRetryDelay s2 ''flush_batch_queue_k'' = 4000
      \<and> \<not> shouldRetry s3 ''flush_batch_queue_k''"
proof -
  have a: "\<not> fallbackMode newErrorRecoveryStrategy"
    by (simp add: newErrorRecoveryStrategy_def)
  have b: "retryCount newErrorRecoveryStrategy ''flush_batch_queue_k'' = None"
    by (simp add: newErrorRecoveryStrategy_def)
  show ?thesis
    using shouldRetry_three_increments[OF a b] a b by (simp add: Let_def)
qed

section \<open>Progress reporting\<close>

lemma floor_rat_numeral_div:
  "\<lfloor>(numeral a :: rat) / numeral b\<rfloor> = numeral a div numeral b"
  using floor_divide_of_int_eq[of "numeral a" "numeral b", where ?'a = rat] by simp

lemma ceiling_rat_numeral_div:
  "\<lceil>(numeral a :: rat) / numeral b\<rceil> = - ((- numeral a) div numeral b)"
  using floor_divide_of_int_eq[of "- numeral a" "numeral b", where ?'a = rat]
  by (simp add: ceiling_def)

subsection \<open>Rounding to a double\<close>

text \<open>
  The exponent found by \<open>binade\<close> is the right one, so that \<open>toDouble\<close> is off by at most
  half a unit in the last place: a relative error of at most \<open>2 ^ - 53\<close> on every number
  that is not subnormal.
\<close>

lemma pow2_powi: "pow2 e = 2 powi e"
  by (simp add: pow2_def power_int_def field_simps)

lemma pow2_pos: "0 < pow2 e"
  by (simp add: pow2_powi zero_less_power_int)

lemma pow2_add: "pow2 (a + b) = pow2 a * pow2 b"
  by (simp add: pow2_powi power_int_add)

lemma pow2_mono: "a \<le> b \<Longrightarrow> pow2 a \<le> pow2 b"
  by (simp add: pow2_powi power_int_increasing)

lemma pow2_nat: "pow2 (int k) = 2 ^ k"
  by (simp add: pow2_def)

lemma pow2_neg_nat: "pow2 (- int k) = 1 / 2 ^ k"
  by (simp add: pow2_powi power_int_minus field_simps)

lemma bitLength_bounds:
  "0 < n \<Longrightarrow> 2 ^ (bitLength n - 1) \<le> n \<and> n < 2 ^ bitLength n"
proof (induction n rule: bitLength.induct)
  case (1 n)
  show ?case
  proof (cases "n div 2 = 0")
    case True
    then have "n = 1" using 1(2) by auto
    then show ?thesis by (simp add: bitLength.simps)
  next
    case False
    then have pos: "0 < n div 2" by simp
    have ih: "2 ^ (bitLength (n div 2) - 1) \<le> n div 2 \<and> n div 2 < 2 ^ bitLength (n div 2)"
      using 1(1) 1(2) pos by simp
    have bl: "bitLength n = Suc (bitLength (n div 2))"
      using 1(2) by (subst bitLength.simps) simp
    have blpos: "0 < bitLength (n div 2)"
      using pos by (subst bitLength.simps) simp
    then obtain k where k: "bitLength (n div 2) = Suc k"
      by (cases "bitLength (n div 2)") auto
    from ih k have "2 ^ k \<le> n div 2" "n div 2 < 2 ^ Suc k" by simp_all
    then have "2 * 2 ^ k \<le> n" "n < 2 * 2 ^ Suc k" by linarith+
    then show ?thesis by (simp add: bl k)
  qed
qed

lemma binade_bounds:
  assumes "0 < x"
  shows "pow2 (binade x) \<le> x" and "x < pow2 (binade x + 1)"
proof -
  have "pow2 (binade x) \<le> x \<and> x < pow2 (binade x + 1)"
  proof (cases "1 \<le> x")
    case True
    define f where "f = nat \<lfloor>x\<rfloor>"
    have fpos: "0 < f" using True by (simp add: f_def)
    have "of_nat f = (of_int \<lfloor>x\<rfloor> :: rat)"
      using True by (simp add: f_def)
    then have fx: "of_nat f \<le> x" "x < of_nat f + 1"
      by linarith+
    obtain k where k: "bitLength f = Suc k"
      using bitLength_bounds[OF fpos] fpos by (cases "bitLength f") auto
    from bitLength_bounds[OF fpos] k have b: "2 ^ k \<le> f" "f < 2 ^ Suc k" by simp_all
    have e: "binade x = int k" using True by (simp add: binade_def f_def[symmetric] k)
    have "(2::rat) ^ k \<le> of_nat f" using b(1) by (metis of_nat_le_iff of_nat_numeral of_nat_power)
    then have lo: "(2::rat) ^ k \<le> x" using fx(1) by linarith
    have "f + 1 \<le> 2 ^ Suc k" using b(2) by simp
    then have "(of_nat (f + 1) :: rat) \<le> 2 ^ Suc k"
      by (metis of_nat_le_iff of_nat_numeral of_nat_power)
    then have hi: "x < 2 ^ Suc k" using fx(2) by simp
    have "pow2 (int k + 1) = 2 ^ Suc k"
      using pow2_nat[of "Suc k"] by (simp add: add.commute)
    then show ?thesis using lo hi by (simp add: e pow2_nat)
  next
    case False
    define y where "y = 1 / x"
    have y1: "1 < y" using False assms by (simp add: y_def)
    define c where "c = nat (\<lceil>y\<rceil> - 1)"
    have "1 < \<lceil>y\<rceil>" using y1 by (simp add: less_ceiling_iff)
    then have cpos: "0 < c" by (simp add: c_def)
    have cint: "int c = \<lceil>y\<rceil> - 1" using \<open>1 < \<lceil>y\<rceil>\<close> by (simp add: c_def)
    have cy: "of_nat c < y" "y \<le> of_nat c + 1"
    proof -
      have "of_int (\<lceil>y\<rceil> - 1) < y" by linarith
      then show "of_nat c < y" by (metis cint of_int_of_nat_eq)
      have "y \<le> of_int \<lceil>y\<rceil>" by linarith
      also have "of_int \<lceil>y\<rceil> = (of_int (int c) :: rat) + 1" by (simp add: cint)
      finally show "y \<le> of_nat c + 1" by simp
    qed
    obtain k where k: "bitLength c = Suc k"
      using bitLength_bounds[OF cpos] cpos by (cases "bitLength c") auto
    from bitLength_bounds[OF cpos] k have b: "2 ^ k \<le> c" "c < 2 ^ Suc k" by simp_all
    have e: "binade x = - int (Suc k)"
      using False by (simp add: binade_def y_def[symmetric] c_def[symmetric] k)
    have "(2::rat) ^ k \<le> of_nat c" using b(1) by (metis of_nat_le_iff of_nat_numeral of_nat_power)
    then have ylo: "(2::rat) ^ k < y" using cy(1) by linarith
    have "c + 1 \<le> 2 ^ Suc k" using b(2) by simp
    then have "(of_nat (c + 1) :: rat) \<le> 2 ^ Suc k"
      by (metis of_nat_le_iff of_nat_numeral of_nat_power)
    then have yhi: "y \<le> 2 ^ Suc k" using cy(2) by simp
    have xy: "x = 1 / y" using assms by (simp add: y_def)
    have ypos: "0 < y" using y1 by simp
    have lo: "1 / 2 ^ Suc k \<le> x"
      unfolding xy using yhi ypos by (simp add: frac_le)
    have hi: "x < 1 / 2 ^ k"
      unfolding xy using ylo by (simp add: frac_less2)
    have "binade x + 1 = - int k" by (simp add: e)
    then show ?thesis
      using lo hi pow2_neg_nat[of "Suc k"] pow2_neg_nat[of k] by (simp add: e)
  qed
  then show "pow2 (binade x) \<le> x" and "x < pow2 (binade x + 1)" by simp_all
qed

lemma roundTiesToEven_error: "\<bar>of_int (roundTiesToEven y) - y\<bar> \<le> 1 / 2"
proof -
  have "of_int \<lfloor>y\<rfloor> \<le> y" "y < of_int \<lfloor>y\<rfloor> + 1" by linarith+
  then show ?thesis
    by (auto simp: roundTiesToEven_def Let_def)
qed

lemma toDouble_zero [simp]: "toDouble 0 = 0"
  by (simp add: toDouble_def)

lemma toDouble_pos:
  "0 < x \<Longrightarrow> toDouble x
     = of_int (roundTiesToEven (x / pow2 (max (binade x - 52) (- 1074))))
         * pow2 (max (binade x - 52) (- 1074))"
  by (simp add: toDouble_def Let_def)

lemma toDouble_error:
  assumes "pow2 (- 1022) \<le> x"
  shows "\<bar>toDouble x - x\<bar> \<le> x / 2 ^ 53"
proof -
  have xpos: "0 < x" using assms pow2_pos[of "- 1022"] by linarith
  have "- 1022 \<le> binade x"
  proof (rule ccontr)
    assume "\<not> - 1022 \<le> binade x"
    then have "binade x + 1 \<le> - 1022" by simp
    then have "pow2 (binade x + 1) \<le> pow2 (- 1022)" by (rule pow2_mono)
    then show False using binade_bounds(2)[OF xpos] assms by linarith
  qed
  then have e: "max (binade x - 52) (- 1074) = binade x - 52" by simp
  define q where "q = pow2 (binade x - 52)"
  define m where "m = roundTiesToEven (x / q)"
  have qpos: "0 < q" by (simp add: q_def pow2_pos)
  have td: "toDouble x = of_int m * q"
    using xpos by (simp add: toDouble_pos e m_def q_def)
  have "\<bar>of_int m - x / q\<bar> \<le> 1 / 2"
    unfolding m_def by (rule roundTiesToEven_error)
  then have "\<bar>of_int m - x / q\<bar> * q \<le> 1 / 2 * q"
    using qpos by (simp add: mult_right_mono)
  moreover have "\<bar>of_int m - x / q\<bar> * q = \<bar>of_int m * q - x\<bar>"
  proof -
    have "\<bar>of_int m - x / q\<bar> * q = \<bar>(of_int m - x / q) * q\<bar>"
      using qpos by (simp add: abs_mult)
    also have "(of_int m - x / q) * q = of_int m * q - x"
      using qpos by (simp add: field_simps)
    finally show ?thesis .
  qed
  ultimately have err: "\<bar>toDouble x - x\<bar> \<le> q / 2" by (simp add: td)
  have "pow2 (binade x) = q * 2 ^ 52"
  proof -
    have "pow2 (binade x) = pow2 ((binade x - 52) + 52)" by simp
    also have "\<dots> = q * pow2 52" unfolding q_def by (rule pow2_add)
    also have "pow2 52 = 2 ^ 52" using pow2_nat[of 52] by simp
    finally show ?thesis .
  qed
  then have "q * 2 ^ 52 \<le> x" using binade_bounds(1)[OF xpos] by simp
  then have "q / 2 \<le> x / 2 ^ 53" by (simp add: field_simps)
  then show ?thesis using err by linarith
qed

subsection \<open>The percentage\<close>

text \<open>
  For an array of fewer than \<open>2 ^ 32\<close> items (no array is longer) the two roundings move
  the percentage by less than \<open>1 / (2 * n)\<close>, which is the least distance between a
  percentage \<open>100 * p / n\<close> and a half-integer that it does not hit. So \<open>Math.round\<close>
  lands on an integer nearest to the exact percentage.
\<close>

lemma percentage_error:
  assumes p: "0 < p" "p \<le> int n" and n: "n < 2 ^ 32"
  shows "\<bar>toDouble (toDouble (of_int p / of_nat n) * 100) - 100 * of_int p / of_nat n\<bar>
           < 1 / (2 * of_nat n)"
proof -
  define a :: rat where "a = of_int p / of_nat n"
  define a' where "a' = toDouble a"
  define b where "b = a' * 100"
  define d where "d = toDouble b"
  have npos: "0 < n" using p by linarith
  have nr: "(0::rat) < of_nat n" using npos by simp
  have nle: "(of_nat n :: rat) \<le> 2 ^ 32"
  proof -
    have "(of_nat n :: rat) \<le> of_nat (2 ^ 32)" using n by (simp only: of_nat_le_iff)
    then show ?thesis by simp
  qed
  have pr: "(1::rat) \<le> of_int p" "(of_int p :: rat) \<le> of_nat n"
  proof -
    show "(1::rat) \<le> of_int p" using p(1) by (simp add: int_one_le_iff_zero_less)
    have "(of_int p :: rat) \<le> of_int (int n)" using p(2) by (simp only: of_int_le_iff)
    then show "(of_int p :: rat) \<le> of_nat n" by simp
  qed
  have a1: "a \<le> 1" using pr(2) nr by (simp add: a_def)
  have alo: "1 / 2 ^ 32 \<le> a"
  proof -
    have "1 / 2 ^ 32 \<le> 1 / (of_nat n :: rat)" using nle nr by (simp add: frac_le)
    also have "\<dots> \<le> a" using pr(1) nr by (simp add: a_def divide_right_mono)
    finally show ?thesis .
  qed
  have tiny: "pow2 (- 1022) \<le> 1 / 2 ^ 33"
  proof -
    have "pow2 (- 1022) \<le> pow2 (- 33)" by (rule pow2_mono) simp
    also have "pow2 (- 33) = 1 / 2 ^ 33" using pow2_neg_nat[of 33] by simp
    finally show ?thesis .
  qed
  have "pow2 (- 1022) \<le> a" using tiny alo by simp
  then have ea: "\<bar>a' - a\<bar> \<le> a / 2 ^ 53" unfolding a'_def by (rule toDouble_error)
  have apos: "0 < a" using alo by simp
  have half: "a / 2 ^ 53 \<le> a / 2" using apos by simp
  have a'lo: "a / 2 \<le> a'" using ea half by linarith
  have a'hi: "a' \<le> 2 * a" using ea half apos by linarith
  have "pow2 (- 1022) \<le> b" using tiny alo a'lo by (simp add: b_def)
  then have eb: "\<bar>d - b\<bar> \<le> b / 2 ^ 53" unfolding d_def by (rule toDouble_error)
  have "d - 100 * a = (d - b) + 100 * (a' - a)" by (simp add: b_def)
  then have "\<bar>d - 100 * a\<bar> \<le> \<bar>d - b\<bar> + \<bar>100 * (a' - a)\<bar>"
    by (simp only: abs_triangle_ineq)
  also have "\<bar>100 * (a' - a)\<bar> = 100 * \<bar>a' - a\<bar>"
    by (simp only: abs_mult abs_numeral)
  finally have "\<bar>d - 100 * a\<bar> \<le> \<bar>d - b\<bar> + 100 * \<bar>a' - a\<bar>" .
  also have "\<dots> \<le> b / 2 ^ 53 + 100 * (a / 2 ^ 53)"
    by (rule add_mono[OF eb]) (use ea in simp)
  also have "\<dots> \<le> 300 * a / 2 ^ 53" using a'hi by (simp add: b_def field_simps)
  also have "\<dots> \<le> 300 / 2 ^ 53" using a1 by (simp add: field_simps)
  also have "\<dots> < 1 / 2 ^ 33" by simp
  also have "\<dots> \<le> 1 / (2 * of_nat n)" using nle nr by (simp add: frac_le)
  finally show ?thesis by (simp add: d_def b_def a'_def a_def)
qed

lemma nearest_integer:
  assumes n: "0 < n" and close: "\<bar>d - 100 * of_int p / of_nat n\<bar> < 1 / (2 * of_nat n)"
  shows "\<bar>2 * int n * mathRound d - 200 * p\<bar> \<le> int n"
proof -
  define r where "r = mathRound d"
  have nr: "(0::rat) < of_nat n" using n by simp
  have rd: "of_int r - 1 / 2 \<le> d" "d < of_int r + 1 / 2"
    unfolding r_def mathRound_def by linarith+
  have scaled: "\<bar>2 * of_nat n * d - 200 * of_int p\<bar> < 1"
  proof -
    have "\<bar>d - 100 * of_int p / of_nat n\<bar> * (2 * of_nat n) < 1 / (2 * of_nat n) * (2 * of_nat n)"
      using close nr by (simp add: mult_strict_right_mono del: times_divide_eq_left)
    moreover have "\<bar>d - 100 * of_int p / of_nat n\<bar> * (2 * of_nat n)
                     = \<bar>(d - 100 * of_int p / of_nat n) * (2 * of_nat n)\<bar>"
      using nr by (simp add: abs_mult)
    moreover have "(d - 100 * of_int p / of_nat n) * (2 * of_nat n)
                     = 2 * of_nat n * d - 200 * of_int p"
      using nr by (simp add: field_simps)
    ultimately show ?thesis using nr by simp
  qed
  have lo: "2 * of_nat n * of_int r - of_nat n \<le> 2 * of_nat n * d"
  proof -
    have "2 * of_nat n * (of_int r - 1 / 2) \<le> 2 * of_nat n * d"
      using rd(1) nr by (simp add: mult_left_mono)
    then show ?thesis by (simp add: algebra_simps)
  qed
  have hi: "2 * of_nat n * d < 2 * of_nat n * of_int r + of_nat n"
  proof -
    have "2 * of_nat n * d < 2 * of_nat n * (of_int r + 1 / 2)"
      using rd(2) nr by (simp add: mult_strict_left_mono)
    then show ?thesis by (simp add: algebra_simps)
  qed
  have "(of_int (2 * int n * r - int n - 200 * p) :: rat) < 1"
    using lo scaled by (simp add: abs_less_iff)
  then have up: "2 * int n * r - int n - 200 * p < 1"
    by (metis of_int_less_iff of_int_1)
  have "(of_int (200 * p - 2 * int n * r - int n) :: rat) < 1"
    using hi scaled by (simp add: abs_less_iff)
  then have down: "200 * p - 2 * int n * r - int n < 1"
    by (metis of_int_less_iff of_int_1)
  show ?thesis using up down by (simp add: r_def[symmetric] abs_le_iff)
qed

lemma currentProgress_nearest:
  assumes p: "0 < p" "p \<le> int n" and n: "n < 2 ^ 32"
  shows "\<bar>2 * int n * currentProgress p n - 200 * p\<bar> \<le> int n"
    and "0 \<le> currentProgress p n" and "currentProgress p n \<le> 100"
proof -
  define r where "r = mathRound (toDouble (toDouble (of_int p / of_nat n) * 100))"
  have npos: "0 < n" using p by linarith
  have near: "\<bar>2 * int n * r - 200 * p\<bar> \<le> int n"
    unfolding r_def by (rule nearest_integer[OF npos percentage_error[OF p n]])
  have "2 * int n * r \<le> 201 * int n" using near p(2) by (simp add: abs_le_iff)
  then have "int n * (2 * r) \<le> int n * 201" by (simp add: algebra_simps)
  then have "2 * r \<le> 201" using npos by (simp only: mult_le_cancel_left_pos of_nat_0_less_iff)
  then have r100: "r \<le> 100" by simp
  have "- int n < 2 * int n * r" using near p(1) by (simp add: abs_le_iff)
  then have "int n * (- 1) < int n * (2 * r)" by (simp add: algebra_simps)
  then have "- 1 < 2 * r" using npos by (simp only: mult_less_cancel_left_pos of_nat_0_less_iff)
  then have r0: "0 \<le> r" by simp
  have cp: "currentProgress p n = r"
    using r100 by (simp add: currentProgress_def r_def[symmetric])
  show "\<bar>2 * int n * currentProgress p n - 200 * p\<bar> \<le> int n" using near by (simp add: cp)
  show "0 \<le> currentProgress p n" using r0 by (simp add: cp)
  show "currentProgress p n \<le> 100" using r100 by (simp add: cp)
qed

lemma nearest_not_tie:
  assumes n: "0 < n" and near: "\<bar>2 * int n * r - 200 * p\<bar> \<le> int n"
    and tie: "(200 * p) mod (2 * int n) \<noteq> int n"
  shows "r = (200 * p + int n) div (2 * int n)"
proof -
  have ne: "200 * p \<noteq> 2 * int n * r + int n"
  proof
    assume "200 * p = 2 * int n * r + int n"
    then have "(200 * p) mod (2 * int n) = (int n + r * (2 * int n)) mod (2 * int n)"
      by (simp add: algebra_simps)
    also have "\<dots> = int n mod (2 * int n)" by (simp only: mod_mult_self1)
    also have "\<dots> = int n" using n by simp
    finally show False using tie by simp
  qed
  have lo: "r * (2 * int n) \<le> 200 * p + int n"
    using near by (simp add: abs_le_iff algebra_simps)
  have hi: "200 * p + int n < (r + 1) * (2 * int n)"
    using near ne by (simp add: abs_le_iff algebra_simps)
  have "(200 * p + int n) div (2 * int n) = r"
    by (rule int_div_pos_eq[where r = "200 * p + int n - r * (2 * int n)"])
       (use lo hi n in \<open>simp_all add: algebra_simps\<close>)
  then show ?thesis by simp
qed

lemma jsSlice_batch:
  assumes "0 \<le> i" and "i < int (length xs)" and "0 < b"
  shows "jsSlice xs i (i + b) = take (nat b) (drop (nat i) xs)"
  using assms by (auto simp: jsSlice_def Let_def min_def)

lemma length_jsSlice_batch:
  assumes "0 \<le> i" and "i < int (length xs)" and "0 < b"
  shows "i + int (length (jsSlice xs i (i + b))) = min (i + b) (int (length xs))"
  using assms by (auto simp: jsSlice_batch)

text \<open>Evaluation of \<open>toDouble\<close> and \<open>bitLength\<close> on numerals.\<close>

lemma toDouble_numeral:
  "toDouble (numeral a / numeral b)
     = of_int (roundTiesToEven
         (numeral a / numeral b / pow2 (max (binade (numeral a / numeral b) - 52) (- 1074))))
       * pow2 (max (binade (numeral a / numeral b) - 52) (- 1074))"
  "toDouble (numeral a)
     = of_int (roundTiesToEven (numeral a / pow2 (max (binade (numeral a) - 52) (- 1074))))
       * pow2 (max (binade (numeral a) - 52) (- 1074))"
  "toDouble (1 / numeral b)
     = of_int (roundTiesToEven
         (1 / numeral b / pow2 (max (binade (1 / numeral b) - 52) (- 1074))))
       * pow2 (max (binade (1 / numeral b) - 52) (- 1074))"
  "toDouble 1 = 1"
proof -
  show "toDouble (numeral a / numeral b)
     = of_int (roundTiesToEven
         (numeral a / numeral b / pow2 (max (binade (numeral a / numeral b) - 52) (- 1074))))
       * pow2 (max (binade (numeral a / numeral b) - 52) (- 1074))"
    by (rule toDouble_pos) simp
  show "toDouble (numeral a)
     = of_int (roundTiesToEven (numeral a / pow2 (max (binade (numeral a) - 52) (- 1074))))
       * pow2 (max (binade (numeral a) - 52) (- 1074))"
    by (rule toDouble_pos) simp
  show "toDouble (1 / numeral b)
     = of_int (roundTiesToEven
         (1 / numeral b / pow2 (max (binade (1 / numeral b) - 52) (- 1074))))
       * pow2 (max (binade (1 / numeral b) - 52) (- 1074))"
    by (rule toDouble_pos) simp
  show "toDouble 1 = 1"
    by (simp add: toDouble_pos binade_def bitLength.simps pow2_def roundTiesToEven_def)
qed

lemma bitLength_numeral:
  "bitLength 0 = 0"
  "bitLength (Suc 0) = Suc 0"
  "bitLength (numeral k) = Suc (bitLength (numeral k div 2))"
  by (simp_all add: bitLength.simps)

lemmas double_eval =
  toDouble_numeral bitLength_numeral binade_def roundTiesToEven_def pow2_def
  floor_rat_numeral_div ceiling_rat_numeral_div

lemmas hook_eval =
  runHook_def executeStep_def startedHook_def createGenerator_def genNext_def genLoop_def
  jsSlice_def currentProgress_def mathRound_def batchIndexOf_def double_eval
  pause_def resume_def updateUI_def Let_def

text \<open>
  Where the exact percentage is halfway between two integers the double can fall on
  either side: 23 of 40 items are 57.5 %, the double is 57.49999999999999 and the
  progress 57; 29 of 200 are 14.5 % and the progress is 14; 1 of 8 is 12.5 %, exactly a
  double, and the progress is 13.
\<close>

lemma currentProgress_ties:
  "currentProgress 23 40 = 57 \<and> currentProgress 29 200 = 14 \<and> currentProgress 1 8 = 13"
  by (simp add: currentProgress_def mathRound_def double_eval)

text \<open>
  C6, as stated: the progress reported after a batch is
  \<open>floor(min(100, processedItems / totalItems * 100))\<close> and reaches 100 exactly when all
  items are processed. It fails on the first batch of 2 of 3 items, where the generator
  reports 67 and the formula gives 66; and with 299 of 300 items processed the generator
  already reports 100.
\<close>

theorem progress_floor_counterexample:
  "fst (genLoop (\<lambda>x. x) [0, 1, 2 :: nat] 2 False False createGenerator)
     = Yielded (YieldPartial [0, 1] 67)
   \<and> \<lfloor>min 100 ((2 :: rat) / 3 * 100)\<rfloor> = (66 :: int)
   \<and> currentProgress 299 300 = 100"
  by (simp add: hook_eval)

text \<open>
  C6, amended: after each processed batch of an array of fewer than \<open>2 ^ 32\<close> items the
  reported progress is \<open>min(100, round(processedItems / totalItems * 100))\<close> with the
  quotient and the product taken in doubles. It is an integer from 0 to 100 that is
  nearest to the exact percentage: at most one half away from it. Unless the exact
  percentage lies halfway between two integers, it is the exact percentage rounded half
  up. It is 100 when all items are processed, it is 100 whenever more than 99.5 % of the
  items are processed, and it is 100 only if at least 99.5 % are.
\<close>

theorem progress_after_batch:
  assumes gen: "genLoop transformFn xs batchSize cancelled paused g
             = (Yielded (YieldPartial transformedChunk prog), g1)"
    and i0: "0 \<le> gen_i g" and b0: "0 < batchSize" and len: "length xs < 2 ^ 32"
  shows "let n = length xs;
             processedItems = min (gen_i g + batchSize) (int n)
         in prog = currentProgress processedItems n
            \<and> \<bar>2 * int n * prog - 200 * processedItems\<bar> \<le> int n
            \<and> ((200 * processedItems) mod (2 * int n) \<noteq> int n
                  \<longrightarrow> prog = (200 * processedItems + int n) div (2 * int n))
            \<and> 0 \<le> prog \<and> prog \<le> 100
            \<and> (prog = 100 \<longrightarrow> 199 * int n \<le> 200 * processedItems)
            \<and> (199 * int n < 200 * processedItems \<longrightarrow> prog = 100)
            \<and> (processedItems = int n \<longrightarrow> prog = 100)"
proof -
  define n where "n = length xs"
  define P where "P = min (gen_i g + batchSize) (int n)"
  from gen have lt: "gen_i g < int (length xs)"
    by (auto simp: genLoop_def Let_def split: if_splits)
  then have npos: "0 < n" using i0 by (auto simp: n_def)
  from gen lt have
    "prog = currentProgress
       (gen_i g + int (length (jsSlice xs (gen_i g) (gen_i g + batchSize)))) (length xs)"
    by (auto simp: genLoop_def Let_def split: if_splits)
  then have p: "prog = currentProgress P n"
    using length_jsSlice_batch[OF i0 lt b0] by (simp add: P_def n_def)
  have P0: "0 < P" using i0 b0 npos by (simp add: P_def)
  have Pn: "P \<le> int n" by (simp add: P_def)
  have nlen: "n < 2 ^ 32" using len by (simp add: n_def)
  have near: "\<bar>2 * int n * prog - 200 * P\<bar> \<le> int n"
    unfolding p by (rule currentProgress_nearest(1)[OF P0 Pn nlen])
  have lo: "0 \<le> prog"
    unfolding p by (rule currentProgress_nearest(2)[OF P0 Pn nlen])
  have hi: "prog \<le> 100"
    unfolding p by (rule currentProgress_nearest(3)[OF P0 Pn nlen])
  have nontie: "prog = (200 * P + int n) div (2 * int n)"
    if "(200 * P) mod (2 * int n) \<noteq> int n"
    by (rule nearest_not_tie[OF npos near that])
  have only: "199 * int n \<le> 200 * P" if "prog = 100"
    using near that by (simp add: abs_le_iff)
  have above: "prog = 100" if "199 * int n < 200 * P"
  proof -
    have "int n * 198 < int n * (2 * prog)"
      using near that by (simp add: abs_le_iff algebra_simps)
    then have "198 < 2 * prog"
      using npos by (simp only: mult_less_cancel_left_pos of_nat_0_less_iff)
    then show ?thesis using hi by simp
  qed
  have all: "prog = 100" if "P = int n"
    using above that npos by simp
  show ?thesis
    using p near nontie lo hi only above all
    by (simp add: Let_def n_def[symmetric] P_def[symmetric])
qed

theorem progress_after_batch_witness:
  "genLoop (\<lambda>x. x) [0, 1, 2 :: nat] 2 False False createGenerator
     = (Yielded (YieldPartial [0, 1] 67),
        \<lparr>gen_i = 0, gen_results = [0, 1], gen_pc = AtPartialYield\<rparr>)
   \<and> length [0, 1, 2 :: nat] < 2 ^ 32
   \<and> (67 :: int) = currentProgress 2 3
   \<and> \<bar>2 * 3 * 67 - 200 * 2\<bar> \<le> (3 :: int)
   \<and> (200 * 2) mod (2 * 3) \<noteq> (3 :: int)
   \<and> (67 :: int) = (200 * 2 + 3) div (2 * 3)
   \<and> genLoop (\<lambda>x. x) [0, 1, 2 :: nat] 2 False False
        \<lparr>gen_i = 2, gen_results = [0, 1], gen_pc = AtPartialYield\<rparr>
     = (Yielded (YieldPartial [2] 100),
        \<lparr>gen_i = 2, gen_results = [0, 1, 2], gen_pc = AtPartialYield\<rparr>)
   \<and> (100 :: int) = currentProgress 3 3
   \<and> 199 * (3 :: int) < 200 * 3"
proof -
  have a: "genLoop (\<lambda>x. x) [0, 1, 2 :: nat] 2 False False createGenerator
     = (Yielded (YieldPartial [0, 1] 67),
        \<lparr>gen_i = 0, gen_results = [0, 1], gen_pc = AtPartialYield\<rparr>)"
    by (simp add: hook_eval)
  have b: "genLoop (\<lambda>x. x) [0, 1, 2 :: nat] 2 False False
        \<lparr>gen_i = 2, gen_results = [0, 1], gen_pc = AtPartialYield\<rparr>
     = (Yielded (YieldPartial [2] 100),
        \<lparr>gen_i = 2, gen_results = [0, 1, 2], gen_pc = AtPartialYield\<rparr>)"
    by (simp add: hook_eval)
  have a0: "0 \<le> gen_i (createGenerator :: nat ComputeGenerator)"
    by (simp add: createGenerator_def)
  have b0: "0 \<le> gen_i \<lparr>gen_i = 2, gen_results = [0, 1 :: nat], gen_pc = AtPartialYield\<rparr>"
    by simp
  have two: "(0 :: int) < 2" by simp
  have len: "length [0, 1, 2 :: nat] < 2 ^ 32" by simp
  have c: "currentProgress 2 3 = 67" "currentProgress 3 3 = 100"
    by (simp_all add: currentProgress_def mathRound_def double_eval)
  show ?thesis
    using a b c len progress_after_batch[OF a a0 two len] progress_after_batch[OF b b0 two len]
    by (simp add: Let_def createGenerator_def)
qed

section \<open>Batch indices forwarded to the cache\<close>

text \<open>
  C4. The claim: within one run the scheduler forwards the batches to \<open>storeBatch\<close>
  with indices that start at 0 and are never shared by two batches. The code derives the
  index from the rounded progress. With 6 batches (6 items in batches of 1, or 3000 items
  in batches of 500) the first batch reports 17 % and the second 33 %, and both get index
  1; no batch gets index 0.
\<close>

theorem storeBatch_index_collision:
  "cacheCalls (runHook (\<lambda>x. 2 * x) [1, 2, 3, 4, 5, 6 :: nat] 1
      (startedHook True (Some ''k'')) [Tick 1])
     = [StoreBatchCall ''k'' [2] 1, StoreBatchCall ''k'' [4] 1]
   \<and> currentProgress 500 3000 = 17 \<and> batchIndexOf 17 3000 500 = 1
   \<and> currentProgress 1000 3000 = 33 \<and> batchIndexOf 33 3000 500 = 1"
  by (simp add: hook_eval)

section \<open>Pause and resume\<close>

text \<open>
  C1. The claim: a run that is paused and later resumed ends with the same result array
  as an uninterrupted run. Where \<open>pause()\<close> cannot cancel the continuation that is
  already registered (it was registered with \<open>setTimeout\<close>, whose identifier
  \<open>scheduleNextFrame\<close> does not keep), a \<open>resume()\<close> that comes before that
  continuation has run registers a second one. Both then drive the same generator; the
  one that runs after the generator has returned receives \<open>done\<close> with \<open>undefined\<close>
  and hands it to \<open>setResult\<close>. On two items in batches of one: the uninterrupted run
  ends with \<open>[2, 4]\<close>, the paused and resumed one with \<open>undefined\<close>.
\<close>

theorem pause_resume_second_continuation:
  "hook_result (runHook (\<lambda>x. 2 * x) [1, 2 :: nat] 1 (startedHook False None)
      [Tick 0, Frame, Tick 0, Frame, Tick 0]) = Some [2, 4]
   \<and> hook_result (runHook (\<lambda>x. 2 * x) [1, 2 :: nat] 1 (startedHook False None)
      [Tick 0, Frame, Pause, Resume, Tick 0, Frame, Tick 0, Tick 0]) = None"
  by (simp add: hook_eval)

section \<open>Key derivation\<close>

lemma dataHash_1001:
  "length xs = 1001 \<Longrightarrow> createOptimizedDataHash ser xs =
     createHash (''1001_'' @ stringifyArray ser
       [xs ! 0, xs ! 500, xs ! 1000, xs ! 0, xs ! 91, xs ! 182, xs ! 273,
        xs ! 364, xs ! 455, xs ! 546, xs ! 637, xs ! 728, xs ! 819, xs ! 910])"
  by (simp add: createOptimizedDataHash_def sampleLoop.simps toStringRadix.simps digitChar_def
      Let_def)

lemmas hash_eval = createHash_def hashStep_def toStringRadix.simps digitChar_def
  stringifyArray_def

lemma fnHash_double: "createOptimizedFunctionHash ''(x) => x * 2'' = ''jlvdni''"
  by (simp add: createOptimizedFunctionHash_def hash_eval stringifyString_def
      stringifyBool_def escapeChar_def)

lemma dataHash_zeros:
  "createOptimizedDataHash (toStringRadix 10) (replicate 1001 (0::nat)) = ''u585l2''"
  by (simp add: dataHash_1001) (simp add: hash_eval)

lemma dataHash_first:
  "createOptimizedDataHash (toStringRadix 10) ((replicate 1001 (0::nat))[0 := 7]) = ''k2hyh4''"
  by (simp add: dataHash_1001) (simp add: hash_eval)

lemma dataHash_middle:
  "createOptimizedDataHash (toStringRadix 10) ((replicate 1001 (0::nat))[500 := 7]) = ''9mklsv''"
  by (simp add: dataHash_1001) (simp add: hash_eval)

lemma dataHash_last:
  "createOptimizedDataHash (toStringRadix 10) ((replicate 1001 (0::nat))[1000 := 7]) = ''gkpn1d''"
  by (simp add: dataHash_1001) (simp add: hash_eval)

lemma generateKey_fresh:
  "generateKey ser [] xs fnString =
     (CACHE_VERSION @ ''_'' @ createOptimizedDataHash ser xs @ ''_''
        @ createOptimizedFunctionHash fnString,
      [(toStringRadix 10 (length xs) @ ''_'' @ toStringRadix 10 (length fnString),
        CACHE_VERSION @ ''_'' @ createOptimizedDataHash ser xs @ ''_''
          @ createOptimizedFunctionHash fnString)])"
  by (simp add: generateKey_def Let_def)

lemma generateKey_memo:
  assumes "map_of keyCache
     (toStringRadix 10 (length xs) @ ''_'' @ toStringRadix 10 (length fnString)) = Some k"
  shows "generateKey ser keyCache xs fnString = (k, keyCache)"
  using assms by (simp add: generateKey_def Let_def)

text \<open>
  On one manager the key is a function of the two lengths alone once a key has been
  generated for them: any collection of the same length gets the first collection's key.
\<close>

lemma generateKey_same_length:
  assumes "length ys = length xs"
  shows "fst (generateKey ser (snd (generateKey ser [] xs fnString)) ys fnString)
           = fst (generateKey ser [] xs fnString)"
  by (simp add: generateKey_fresh generateKey_memo assms)

text \<open>Two calls with identical arguments on one manager return the same key.\<close>

lemma generateKey_deterministic:
  "fst (generateKey ser (snd (generateKey ser keyCache xs fnString)) xs fnString)
     = fst (generateKey ser keyCache xs fnString)"
proof (cases "map_of keyCache
     (toStringRadix 10 (length xs) @ ''_'' @ toStringRadix 10 (length fnString))")
  case None
  then show ?thesis by (simp add: generateKey_def Let_def map_add_def)
next
  case (Some k)
  then show ?thesis by (simp add: generateKey_memo)
qed

text \<open>
  C3. The claim: \<open>generateKey\<close> is deterministic, and for a collection of more than 1000
  items altering the first, the middle or the last element changes the key returned on
  the same manager. For 1001 zeros and the transform \<open>(x) => x * 2\<close> a fresh manager
  returns \<open>1.0.0_u585l2_jlvdni\<close>. Asked next, on the same manager, for the collection
  with the first, the middle or the last element changed to 7, it returns that same key
  from its memo, although a manager that has not seen the zeros derives three other keys.
\<close>

theorem generateKey_memo_hides_change:
  "fst (generateKey (toStringRadix 10) [] (replicate 1001 (0::nat)) ''(x) => x * 2'')
     = ''1.0.0_u585l2_jlvdni''
   \<and> fst (generateKey (toStringRadix 10)
        (snd (generateKey (toStringRadix 10) [] (replicate 1001 (0::nat)) ''(x) => x * 2''))
        ((replicate 1001 (0::nat))[0 := 7]) ''(x) => x * 2'')
     = ''1.0.0_u585l2_jlvdni''
   \<and> fst (generateKey (toStringRadix 10)
        (snd (generateKey (toStringRadix 10) [] (replicate 1001 (0::nat)) ''(x) => x * 2''))
        ((replicate 1001 (0::nat))[500 := 7]) ''(x) => x * 2'')
     = ''1.0.0_u585l2_jlvdni''
   \<and> fst (generateKey (toStringRadix 10)
        (snd (generateKey (toStringRadix 10) [] (replicate 1001 (0::nat)) ''(x) => x * 2''))
        ((replicate 1001 (0::nat))[1000 := 7]) ''(x) => x * 2'')
     = ''1.0.0_u585l2_jlvdni''
   \<and> fst (generateKey (toStringRadix 10) [] ((replicate 1001 (0::nat))[0 := 7])
        ''(x) => x * 2'')
     = ''1.0.0_k2hyh4_jlvdni''
   \<and> fst (generateKey (toStringRadix 10) [] ((replicate 1001 (0::nat))[500 := 7])
        ''(x) => x * 2'')
     = ''1.0.0_9mklsv_jlvdni''
   \<and> fst (generateKey (toStringRadix 10) [] ((replicate 1001 (0::nat))[1000 := 7])
        ''(x) => x * 2'')
     = ''1.0.0_gkpn1d_jlvdni''"
  by (simp add: generateKey_same_length)
     (simp add: generateKey_fresh dataHash_zeros dataHash_first dataHash_middle
        dataHash_last fnHash_double CACHE_VERSION_def)

section \<open>Writing and combining batches\<close>

lemma wrapper_success:
  assumes "\<not> fallbackMode s" and "operation st = (Inr r, st1)"
  shows "createRecoveryWrapper operationId operation fallbackValue (s, st)
           = (r, resetRetryCount s operationId, st1)"
  using assms by (simp add: createRecoveryWrapper.simps)

lemma wrapper_fallback:
  assumes "fallbackMode s"
  shows "createRecoveryWrapper operationId operation fallbackValue (s, st)
           = (fallbackValue, s, st)"
  using assms by (simp add: createRecoveryWrapper.simps)

lemma flushedEntry_key [simp]:
  "entry_key (flushedEntry ser now cm cacheEntry queued) = entry_key cacheEntry"
  by (simp add: flushedEntry_def Let_def)

lemma flushBatchQueue_writes:
  assumes "\<not> fallbackMode (errorRecovery cm)"
    and "putFault (dbWrapper cm) (putCalls (dbWrapper cm)) = None"
    and "map_of (batchQueue cm) k = Some q" and "queue_batches q \<noteq> []"
  shows "flushBatchQueue ser now cm k =
     cm\<lparr>dbWrapper := (dbWrapper cm)
           \<lparr>putCalls := putCalls (dbWrapper cm) + 1,
            objects := AList.update
              (entry_key (getOrCreateCacheEntry ser now cm k []))
              (Entry (flushedEntry ser now cm (getOrCreateCacheEntry ser now cm k [])
                 (queue_batches q)))
              (objects (dbWrapper cm))\<rparr>,
         errorRecovery := resetRetryCount (errorRecovery cm) (''flush_batch_queue_'' @ k),
         batchQueue := AList.update k \<lparr>queue_batches = [], queue_timer = False\<rparr> (batchQueue cm)\<rparr>"
proof -
  have op: "flushOperation ser now k q cm =
     (Inr (), cm\<lparr>dbWrapper := (dbWrapper cm)
           \<lparr>putCalls := putCalls (dbWrapper cm) + 1,
            objects := AList.update
              (entry_key (getOrCreateCacheEntry ser now cm k []))
              (Entry (flushedEntry ser now cm (getOrCreateCacheEntry ser now cm k [])
                 (queue_batches q)))
              (objects (dbWrapper cm))\<rparr>\<rparr>)"
    using assms(2) by (simp add: flushOperation_def dbPut_def Let_def)
  show ?thesis
    using assms(3,4)
    by (simp add: flushBatchQueue_def
        wrapper_success[where operation = "flushOperation ser now k q" and st = cm,
          OF assms(1) op])
qed

lemma storeBatch_queues:
  assumes "isInitialized cm" and "\<not> fallbackMode (errorRecovery cm)"
  shows "storeBatch now cm k xs i =
     cm\<lparr>batchQueue := AList.update k
            \<lparr>queue_batches =
               (case map_of (batchQueue cm) k of None \<Rightarrow> [] | Some q \<Rightarrow> queue_batches q)
               @ [\<lparr>queued_index = i, queued_data = xs, queued_timestamp = now\<rparr>],
             queue_timer = True\<rparr> (batchQueue cm)\<rparr>"
  using assms by (simp add: storeBatch_def isInFallbackMode_def Let_def split: option.splits)

lemma getOrCreate_absent:
  assumes "dbGet (dbWrapper cm) k = None"
  shows "getOrCreateCacheEntry ser now cm k xs = newCacheEntry ser now cm k xs"
  using assms by (simp add: getOrCreateCacheEntry_def)

lemma majorVersion_eq [simp]: "majorVersion = ''1''"
  by (simp add: majorVersion_def CACHE_VERSION_def)

lemma validate_ok:
  assumes "entry_key e \<noteq> []" and "version e = CACHE_VERSION"
  shows "validateCacheEntry (Entry e) = Inr e"
  using assms by (simp add: validateCacheEntry_def CACHE_VERSION_def)

lemma getOrCreate_present:
  assumes "dbGet (dbWrapper cm) k = Some (Entry e)"
    and "entry_key e \<noteq> []" and "version e = CACHE_VERSION"
  shows "getOrCreateCacheEntry ser now cm k xs = e"
  using assms by (simp add: getOrCreateCacheEntry_def validate_ok)

lemma fallbackMode_resetRetryCount [simp]:
  "fallbackMode (resetRetryCount s operationId) = fallbackMode s"
  by (simp add: resetRetryCount_def)

lemmas flush_eval = storeBatch_queues update_conv' flushBatchQueue_writes
  getOrCreateCacheEntry_def newCacheEntry_def dbGet_def flushedEntry_def toBatchData_def
  combineBatchData_def validateCacheEntry_def CACHE_VERSION_def Let_def

lemma filter_same_key:
  assumes "distinct (map f l)" and "k \<in> set l"
  shows "filter (\<lambda>x. f k = f x) l = [k]"
  using assms
proof (induction l)
  case Nil
  then show ?case by simp
next
  case (Cons a l)
  show ?case
  proof (cases "a = k")
    case True
    have "filter (\<lambda>x. f k = f x) l = []"
      using Cons.prems(1) True by (auto simp: filter_empty_conv)
    then show ?thesis using True by simp
  next
    case False
    then have "k \<in> set l" using Cons.prems(2) by simp
    moreover have "f k \<noteq> f a"
    proof
      assume "f k = f a"
      then have "f a \<in> f ` set l" using \<open>k \<in> set l\<close> by (metis imageI)
      then show False using Cons.prems(1) by simp
    qed
    ultimately show ?thesis using Cons by simp
  qed
qed

lemma sort_key_permutation:
  assumes "distinct (map f xs)" and "mset ys = mset xs"
  shows "sort_key f ys = sort_key f xs"
proof (rule properties_for_sort_key)
  show "mset (sort_key f xs) = mset ys" using assms(2) by simp
  have dy: "distinct (map f ys)"
    using assms by (metis mset_eq_imp_distinct_iff mset_map)
  show "\<And>k. k \<in> set (sort_key f xs) \<Longrightarrow>
          filter (\<lambda>x. f k = f x) (sort_key f xs) = filter (\<lambda>x. f k = f x) ys"
  proof -
    fix k assume "k \<in> set (sort_key f xs)"
    then have kx: "k \<in> set xs" by simp
    then have ky: "k \<in> set ys" using assms(2) by (metis mset_eq_setD)
    have ds: "distinct (map f (sort_key f xs))"
      using assms(1) by (metis distinct_map distinct_sort set_sort)
    show "filter (\<lambda>x. f k = f x) (sort_key f xs) = filter (\<lambda>x. f k = f x) ys"
      using filter_same_key[OF ds] filter_same_key[OF dy ky] kx by simp
  qed
  show "sorted (map f (sort_key f xs))" by simp
qed

lemma combineBatchData_permutation:
  assumes "distinct (map batch_index bs)" and "mset bs' = mset bs"
  shows "combineBatchData bs' = combineBatchData bs"
  using sort_key_permutation[OF assms] by (simp add: combineBatchData_def)

lemma upsertBatch_indices:
  "set (map batch_index (upsertBatch b bs)) = insert (batch_index b) (set (map batch_index bs))"
  by (induction bs) auto

lemma upsertBatch_distinct:
  "distinct (map batch_index bs) \<Longrightarrow> distinct (map batch_index (upsertBatch b bs))"
proof (induction bs)
  case Nil
  then show ?case by simp
next
  case (Cons x xs)
  then show ?case
    using upsertBatch_indices[of b xs] by (auto simp del: set_map)
qed

lemma upsertBatch_length:
  "length (upsertBatch b bs) =
     (if batch_index b \<in> set (map batch_index bs) then length bs else Suc (length bs))"
  by (induction bs) auto

lemma foldl_upsert_distinct:
  "distinct (map batch_index bs) \<Longrightarrow>
     distinct (map batch_index (foldl (\<lambda>bs q. upsertBatch (g q) bs) bs queued))"
  by (induction queued arbitrary: bs) (auto simp: upsertBatch_distinct)

lemma flushedEntry_ordered:
  assumes "distinct (map batch_index (batches e))"
  shows "sorted (map batch_index (batches (flushedEntry ser now cm e queued)))"
    and "distinct (map batch_index (batches (flushedEntry ser now cm e queued)))"
    and "entry_data (flushedEntry ser now cm e queued)
           = concat (map batch_data (batches (flushedEntry ser now cm e queued)))"
proof -
  let ?up = "foldl (\<lambda>bs q. upsertBatch (toBatchData ser cm q) bs) (batches e) queued"
  have b: "batches (flushedEntry ser now cm e queued) = sort_key batch_index ?up"
    by (simp add: flushedEntry_def Let_def)
  show "sorted (map batch_index (batches (flushedEntry ser now cm e queued)))"
    by (simp add: b)
  have "distinct (map batch_index ?up)"
    using assms by (rule foldl_upsert_distinct)
  then show "distinct (map batch_index (batches (flushedEntry ser now cm e queued)))"
    unfolding b by (metis distinct_map distinct_sort set_sort)
  have "sort_key batch_index (sort_key batch_index ?up) = sort_key batch_index ?up"
    by (rule sort_key_id_if_sorted) simp
  then show "entry_data (flushedEntry ser now cm e queued)
               = concat (map batch_data (batches (flushedEntry ser now cm e queued)))"
    by (simp add: flushedEntry_def combineBatchData_def Let_def)
qed

lemma initializedManager_simps [simp]:
  "isInitialized initializedManager"
  "\<not> fallbackMode (errorRecovery initializedManager)"
  "putFault (dbWrapper initializedManager) = (\<lambda>_. None)"
  "map_of (batchQueue initializedManager) k = None"
  "dbGet (dbWrapper initializedManager) k = None"
  "compressionEnabled initializedManager"
  "config_maxSize initializedManager = 100"
  "config_maxAge initializedManager = 86400000"
  by (simp_all add: initializedManager_def newErrorRecoveryStrategy_def dbGet_def)

lemmas compress_eval = compressBatchData_def toStringRadix.simps digitChar_def Let_def

text \<open>
  C5. Combining the batches of an entry gives their data concatenated in ascending index
  order, whatever the order of the batches in the entry or of their arrival: the
  combination of batches with distinct indices does not depend on their order; a flush
  leaves the batches sorted with each index once and \<open>data\<close> their concatenation; batches
  queued with indices 2, 0, 1 are stored as batch 0, batch 1, batch 2; and flushing index 1
  again replaces that batch. \<open>stored\<close> is what the flush keeps of a batch's items.
\<close>

theorem batches_combine_by_index:
  fixes cm :: "'r CacheManagerImpl"
  assumes "isInitialized cm" and "\<not> fallbackMode (errorRecovery cm)"
    and "putFault (dbWrapper cm) = (\<lambda>_. None)"
    and "map_of (batchQueue cm) k = None" and "dbGet (dbWrapper cm) k = None"
    and "k \<noteq> []"
  shows "(\<forall>bs bs' :: 'r CacheBatch list.
            distinct (map batch_index bs) \<and> mset bs' = mset bs
              \<longrightarrow> combineBatchData bs' = combineBatchData bs)
    \<and> (\<forall>bs :: 'r CacheBatch list.
          combineBatchData bs = concat (map batch_data (sort_key batch_index bs))
          \<and> sorted (map batch_index (sort_key batch_index bs)))
    \<and> (\<forall>(e :: 'r CacheEntry) queued.
          distinct (map batch_index (batches e)) \<longrightarrow>
            (let e1 = flushedEntry ser now cm e queued
             in sorted (map batch_index (batches e1)) \<and> distinct (map batch_index (batches e1))
                \<and> entry_data e1 = concat (map batch_data (batches e1))))
    \<and> (let stored = (\<lambda>xs. if compressionEnabled cm then compressBatchData ser xs else xs);
            cm1 = flushBatchQueue ser now
                    (storeBatch now (storeBatch now (storeBatch now cm k d2 2) k d0 0) k d1 1) k;
            cm2 = flushBatchQueue ser now (storeBatch now cm1 k d3 1) k
        in (\<exists>e. dbGet (dbWrapper cm1) k = Some (Entry e)
                \<and> map batch_index (batches e) = [0, 1, 2]
                \<and> entry_data e = stored d0 @ stored d1 @ stored d2)
         \<and> (\<exists>e. dbGet (dbWrapper cm2) k = Some (Entry e)
                \<and> map batch_index (batches e) = [0, 1, 2]
                \<and> entry_data e = stored d0 @ stored d3 @ stored d2))"
proof (intro conjI allI impI)
  fix bs bs' :: "'r CacheBatch list"
  assume "distinct (map batch_index bs) \<and> mset bs' = mset bs"
  then show "combineBatchData bs' = combineBatchData bs"
    by (simp add: combineBatchData_permutation)
next
  fix bs :: "'r CacheBatch list"
  show "combineBatchData bs = concat (map batch_data (sort_key batch_index bs))"
    by (simp add: combineBatchData_def)
  show "sorted (map batch_index (sort_key batch_index bs))" by simp
next
  fix e :: "'r CacheEntry" and queued
  assume "distinct (map batch_index (batches e))"
  then show "let e1 = flushedEntry ser now cm e queued
             in sorted (map batch_index (batches e1)) \<and> distinct (map batch_index (batches e1))
                \<and> entry_data e1 = concat (map batch_data (batches e1))"
    using flushedEntry_ordered[of e ser now cm queued] by (simp add: Let_def)
next
  show "let stored = (\<lambda>xs. if compressionEnabled cm then compressBatchData ser xs else xs);
            cm1 = flushBatchQueue ser now
                    (storeBatch now (storeBatch now (storeBatch now cm k d2 2) k d0 0) k d1 1) k;
            cm2 = flushBatchQueue ser now (storeBatch now cm1 k d3 1) k
        in (\<exists>e. dbGet (dbWrapper cm1) k = Some (Entry e)
                \<and> map batch_index (batches e) = [0, 1, 2]
                \<and> entry_data e = stored d0 @ stored d1 @ stored d2)
         \<and> (\<exists>e. dbGet (dbWrapper cm2) k = Some (Entry e)
                \<and> map batch_index (batches e) = [0, 1, 2]
                \<and> entry_data e = stored d0 @ stored d3 @ stored d2)"
    using assms by (simp add: flush_eval)
qed

theorem batches_combine_by_index_witness:
  "isInitialized (initializedManager :: nat CacheManagerImpl)
   \<and> \<not> fallbackMode (errorRecovery (initializedManager :: nat CacheManagerImpl))
   \<and> dbGet (dbWrapper (initializedManager :: nat CacheManagerImpl)) ''k'' = None
   \<and> (\<exists>e. dbGet (dbWrapper (flushBatchQueue (toStringRadix 10) 1000
            (storeBatch 1000 (storeBatch 1000 (storeBatch 1000
               (initializedManager :: nat CacheManagerImpl) ''k'' [50, 60] 2) ''k'' [10, 20] 0)
               ''k'' [30, 40] 1) ''k'')) ''k'' = Some (Entry e)
          \<and> map batch_index (batches e) = [0, 1, 2]
          \<and> entry_data e = [10, 20, 30, 40, 50, 60])
   \<and> (\<exists>e. dbGet (dbWrapper (flushBatchQueue (toStringRadix 10) 1000
            (storeBatch 1000 (flushBatchQueue (toStringRadix 10) 1000
            (storeBatch 1000 (storeBatch 1000 (storeBatch 1000
               (initializedManager :: nat CacheManagerImpl) ''k'' [50, 60] 2) ''k'' [10, 20] 0)
               ''k'' [30, 40] 1) ''k'') ''k'' [70] 1) ''k'')) ''k'' = Some (Entry e)
          \<and> map batch_index (batches e) = [0, 1, 2]
          \<and> entry_data e = [10, 20, 70, 50, 60])"
proof -
  have k: "''k'' \<noteq> []" by simp
  have c: "compressBatchData (toStringRadix 10) [10, 20 :: nat] = [10, 20]"
    "compressBatchData (toStringRadix 10) [30, 40 :: nat] = [30, 40]"
    "compressBatchData (toStringRadix 10) [50, 60 :: nat] = [50, 60]"
    "compressBatchData (toStringRadix 10) [70 :: nat] = [70]"
    by (simp_all add: compress_eval)
  show ?thesis
    using batches_combine_by_index[where cm = "initializedManager :: nat CacheManagerImpl"
        and k = "''k''" and ser = "toStringRadix 10" and now = 1000
        and ?d0.0 = "[10, 20]" and ?d1.0 = "[30, 40]" and ?d2.0 = "[50, 60]" and ?d3.0 = "[70]",
        OF initializedManager_simps(1,2,3,4,5) k]
    by (simp add: Let_def c)
qed

section \<open>Deduplication of stored batches\<close>

lemma compressLoop_keys:
  "distinct (map ser (compressLoop ser seen xs))
   \<and> set (map ser (compressLoop ser seen xs)) = set (map ser xs) - set seen"
proof (induction xs arbitrary: seen)
  case Nil
  then show ?case by simp
next
  case (Cons x xs)
  show ?case
  proof (cases "ser x \<in> set seen")
    case True
    then show ?thesis using Cons.IH[of seen] by (auto simp: Let_def)
  next
    case False
    then show ?thesis using Cons.IH[of "ser x # seen"] by (auto simp: Let_def)
  qed
qed

lemma compressLoop_shorter:
  assumes "\<not> distinct (map ser xs)"
  shows "length (compressLoop ser [] xs) < length xs"
proof -
  have "length (compressLoop ser [] xs) = length (map ser (compressLoop ser [] xs))" by simp
  also have "\<dots> = card (set (map ser (compressLoop ser [] xs)))"
    using compressLoop_keys[of ser "[]" xs] by (metis distinct_card)
  also have "\<dots> = card (set (map ser xs))"
    using compressLoop_keys[of ser "[]" xs] by simp
  also have "\<dots> < length (map ser xs)"
    using assms by (metis card_distinct card_length le_neq_implies_less)
  finally show ?thesis by simp
qed

lemma compressBatchData_duplicates:
  assumes "\<not> distinct (map ser xs)"
  shows "compressBatchData ser xs = compressLoop ser [] xs"
    and "length (compressBatchData ser xs) < length xs"
    and "distinct (map ser (compressBatchData ser xs))"
    and "set (map ser (compressBatchData ser xs)) = set (map ser xs)"
proof -
  have "\<not> length xs \<le> 1"
  proof
    assume "length xs \<le> 1"
    then have "distinct (map ser xs)" by (cases xs) auto
    then show False using assms by simp
  qed
  then show a: "compressBatchData ser xs = compressLoop ser [] xs"
    using compressLoop_shorter[OF assms] by (simp add: compressBatchData_def Let_def)
  show "length (compressBatchData ser xs) < length xs"
    using compressLoop_shorter[OF assms] a by simp
  show "distinct (map ser (compressBatchData ser xs))"
    using compressLoop_keys[of ser "[]" xs] a by simp
  show "set (map ser (compressBatchData ser xs)) = set (map ser xs)"
    using compressLoop_keys[of ser "[]" xs] a by simp
qed

lemma checkCache_run:
  assumes "isInitialized cm" and "\<not> fallbackMode (errorRecovery cm)"
    and "checkCacheOperation now k cm = (Inr r, cm1)"
  shows "checkCache now cm k
           = (r, cm1\<lparr>errorRecovery := resetRetryCount (errorRecovery cm) (''cache_check_'' @ k)\<rparr>)"
  using assms
  by (simp add: checkCache_def isInFallbackMode_def
      wrapper_success[where operation = "checkCacheOperation now k" and st = cm,
        OF assms(2,3)])

lemmas check_eval = checkCacheOperation_def isCacheExpired_def updateLastAccessed_def
  dbPut_def

lemma checkCache_ok:
  assumes "isInitialized cm" and "\<not> fallbackMode (errorRecovery cm)"
    and "\<not> isl (fst (checkCacheOperation now k cm))"
  shows "checkCache now cm k
           = (projr (fst (checkCacheOperation now k cm)),
              (snd (checkCacheOperation now k cm))
                \<lparr>errorRecovery := resetRetryCount (errorRecovery cm) (''cache_check_'' @ k)\<rparr>)"
proof -
  obtain r cm1 where op: "checkCacheOperation now k cm = (Inr r, cm1)"
    using assms(3) by (cases "checkCacheOperation now k cm"; cases "fst (checkCacheOperation now k cm)") auto
  show ?thesis using checkCache_run[OF assms(1,2) op] op by simp
qed

text \<open>
  C10. With compression enabled a flushed batch keeps one item of every JSON
  serialisation. When two items of a batch serialise alike, the data \<open>checkCache\<close> returns
  for the incomplete entry is the deduplicated batch, shorter than the batch that was
  computed; after \<open>markComplete\<close> the entry is complete and its data is the full result.
\<close>

theorem incomplete_entry_is_deduplicated:
  fixes cm :: "'r CacheManagerImpl"
  assumes "isInitialized cm" and "\<not> fallbackMode (errorRecovery cm)"
    and "putFault (dbWrapper cm) = (\<lambda>_. None)"
    and "map_of (batchQueue cm) k = None" and "dbGet (dbWrapper cm) k = None"
    and "k \<noteq> []" and "compressionEnabled cm" and "0 \<le> config_maxAge cm"
    and "\<not> distinct (map ser xs)"
  shows "let cm1 = flushBatchQueue ser now (storeBatch now cm k xs 0) k;
             (r1, cm2) = checkCache now cm1 k
         in (\<exists>res. r1 = Some res \<and> result_data res = compressBatchData ser xs
               \<and> \<not> result_isComplete res
               \<and> length (result_data res) < length xs
               \<and> distinct (map ser (result_data res))
               \<and> set (map ser (result_data res)) = set (map ser xs))
          \<and> (\<exists>cm3. markComplete ser now 1 cm2 k totalResult = Some cm3
               \<and> (\<exists>res. fst (checkCache now cm3 k) = Some res
                      \<and> result_data res = totalResult \<and> result_isComplete res))"
  using assms(1-8) compressBatchData_duplicates[OF assms(9)]
  by (simp add: Let_def split_def checkCache_ok flush_eval check_eval markComplete.simps)

theorem incomplete_entry_is_deduplicated_witness:
  "\<not> distinct (map (toStringRadix 10) [10, 10, 20 :: nat])
   \<and> (\<exists>res. fst (checkCache 1000
          (flushBatchQueue (toStringRadix 10) 1000
             (storeBatch 1000 (initializedManager :: nat CacheManagerImpl) ''k'' [10, 10, 20] 0)
             ''k'') ''k'') = Some res
        \<and> result_data res = [10, 20] \<and> \<not> result_isComplete res)
   \<and> (\<exists>cm3. markComplete (toStringRadix 10) 1000 1
          (snd (checkCache 1000
             (flushBatchQueue (toStringRadix 10) 1000
                (storeBatch 1000 (initializedManager :: nat CacheManagerImpl) ''k''
                   [10, 10, 20] 0) ''k'') ''k'')) ''k'' [10, 10, 20, 30] = Some cm3
        \<and> (\<exists>res. fst (checkCache 1000 cm3 ''k'') = Some res
               \<and> result_data res = [10, 10, 20, 30] \<and> result_isComplete res))"
proof -
  have k: "''k'' \<noteq> []" by simp
  have age: "0 \<le> config_maxAge (initializedManager :: nat CacheManagerImpl)" by simp
  have dup: "\<not> distinct (map (toStringRadix 10) [10, 10, 20 :: nat])" by simp
  have c: "compressBatchData (toStringRadix 10) [10, 10, 20 :: nat] = [10, 20]"
    by (simp add: compress_eval)
  show ?thesis
    using incomplete_entry_is_deduplicated[where cm = "initializedManager :: nat CacheManagerImpl"
        and k = "''k''" and ser = "toStringRadix 10" and now = 1000
        and xs = "[10, 10, 20]" and totalResult = "[10, 10, 20, 30]",
        OF initializedManager_simps(1,2,3,4,5) k initializedManager_simps(6) age dup] dup
    by (simp add: Let_def split_def c) blast
qed

section \<open>Fallback mode\<close>

lemma checkCache_fallback:
  assumes "fallbackMode (errorRecovery cm)"
  shows "checkCache now cm k = (None, cm)"
  using assms by (simp add: checkCache_def isInFallbackMode_def)

lemma storeBatch_fallback:
  assumes "fallbackMode (errorRecovery cm)"
  shows "storeBatch now cm k xs i = cm"
  using assms by (simp add: storeBatch_def isInFallbackMode_def)

lemma flushBatchQueue_fallback:
  assumes "fallbackMode (errorRecovery cm)"
  shows "dbWrapper (flushBatchQueue ser now cm k) = dbWrapper cm"
    and "errorRecovery (flushBatchQueue ser now cm k) = errorRecovery cm"
  using assms
  by (simp_all add: flushBatchQueue_def wrapper_fallback split: option.splits)

lemma markComplete_writes:
  assumes "isInitialized cm"
    and "putFault (dbWrapper cm) (putCalls (dbWrapper cm)) = None"
  shows "markComplete ser now (Suc fuel) cm k totalResult =
     Some (cm\<lparr>dbWrapper := (dbWrapper cm)
             \<lparr>putCalls := putCalls (dbWrapper cm) + 1,
              objects := AList.update (entry_key (getOrCreateCacheEntry ser now cm k totalResult))
                (Entry ((getOrCreateCacheEntry ser now cm k totalResult)
                   \<lparr>isComplete := True, entry_data := totalResult,
                    metadata := (metadata (getOrCreateCacheEntry ser now cm k totalResult))
                      \<lparr>lastAccessed := now,
                       totalSize := calculateDataSize ser totalResult\<rparr>\<rparr>))
                (objects (dbWrapper cm))\<rparr>\<rparr>)"
  using assms by (simp add: markComplete.simps dbPut_def Let_def)

text \<open>
  C2. The claim: once \<open>fallbackToNonCached()\<close> has set the flag, \<open>checkCache\<close>,
  \<open>storeBatch\<close>, \<open>markComplete\<close> and the writes they trigger leave the store unchanged
  until \<open>resetFallbackMode()\<close>. \<open>checkCache\<close> and \<open>storeBatch\<close> test the flag and a flush
  is skipped by the recovery wrapper (the three lemmas above), but \<open>markComplete\<close> tests
  only \<open>isInitialized\<close>: on an initialised manager in fallback mode with an empty store it
  writes the completed entry.
\<close>

theorem markComplete_writes_in_fallback:
  "isInFallbackMode (errorRecovery
      (initializedManager\<lparr>errorRecovery := snd (fallbackToNonCached newErrorRecoveryStrategy)\<rparr>
         :: nat CacheManagerImpl))
   \<and> objects (dbWrapper
      (initializedManager\<lparr>errorRecovery := snd (fallbackToNonCached newErrorRecoveryStrategy)\<rparr>
         :: nat CacheManagerImpl)) = []
   \<and> (\<exists>cm1 e. markComplete (toStringRadix 10) 1000 1
          (initializedManager\<lparr>errorRecovery := snd (fallbackToNonCached newErrorRecoveryStrategy)\<rparr>
             :: nat CacheManagerImpl) ''k'' [10, 20] = Some cm1
        \<and> isInFallbackMode (errorRecovery cm1)
        \<and> objects (dbWrapper cm1) = [(''k'', Entry e)]
        \<and> entry_data e = [10, 20] \<and> isComplete e)"
  by (simp add: markComplete_writes getOrCreateCacheEntry_def newCacheEntry_def dbGet_def
      isInFallbackMode_def fallbackToNonCached_def initializedManager_def)

section \<open>Completion under quota errors\<close>

lemma quota_recognised: "isQuotaExceededError (putRejection ''The quota has been exceeded.'')"
  by (simp add: isQuotaExceededError_def putRejection_def CacheError_def toLowerCase_def
      lowerChar_def Let_def)

lemma handleStorageQuotaExceeded_empty:
  assumes "objects (dbWrapper cm) = []"
  shows "handleStorageQuotaExceeded cm = (Inr (), cm)"
  using assms by (simp add: handleStorageQuotaExceeded_def dbGetAllKeys_def Let_def)

lemma markComplete_quota_retry:
  assumes "isInitialized cm"
    and "putFault (dbWrapper cm) (putCalls (dbWrapper cm)) = Some e"
    and "isQuotaExceededError e" and "objects (dbWrapper cm) = []"
  shows "markComplete ser now (Suc fuel) cm k totalResult =
     markComplete ser now fuel
       (cm\<lparr>dbWrapper := (dbWrapper cm)\<lparr>putCalls := putCalls (dbWrapper cm) + 1\<rparr>\<rparr>)
       k totalResult"
  using assms
  by (simp add: markComplete.simps dbPut_def Let_def handleStorageQuotaExceeded_empty)

text \<open>
  Over an empty store whose every \<open>put\<close> is rejected with a quota error,
  \<open>markComplete\<close> cleans up and calls itself without end.
\<close>

lemma markComplete_never_returns:
  assumes "isInitialized cm" and "objects (dbWrapper cm) = []"
    and "\<And>n. \<exists>e. putFault (dbWrapper cm) n = Some e \<and> isQuotaExceededError e"
  shows "markComplete ser now fuel cm k totalResult = None"
  using assms
proof (induction fuel arbitrary: cm)
  case 0
  then show ?case by (simp add: markComplete.simps)
next
  case (Suc fuel)
  obtain e where e: "putFault (dbWrapper cm) (putCalls (dbWrapper cm)) = Some e"
      "isQuotaExceededError e"
    using Suc.prems(3) by blast
  let ?cm = "cm\<lparr>dbWrapper := (dbWrapper cm)\<lparr>putCalls := putCalls (dbWrapper cm) + 1\<rparr>\<rparr>"
  have "markComplete ser now fuel ?cm k totalResult = None"
    using Suc.prems by (intro Suc.IH) auto
  then show ?case
    using markComplete_quota_retry[OF Suc.prems(1) e Suc.prems(2)] by simp
qed

text \<open>
  C7. The claim: a failure inside \<open>markComplete\<close> is swallowed, and on a quota error
  \<open>markComplete\<close> cleans up once and retries the store exactly once, giving up if the
  retry fails too. The retry is a call of \<open>markComplete\<close> itself, which on a further quota
  error cleans up and retries again. When the first two writes are rejected with a quota
  error, two nested calls are not enough, the third call writes the entry (three calls of
  \<open>put\<close>); when every write is rejected, no amount of fuel lets the call return.
\<close>

theorem markComplete_retries_more_than_once:
  "markComplete (toStringRadix 10) 1000 2
      (initializedManager\<lparr>dbWrapper := \<lparr>objects = [], putCalls = 0,
          putFault = (\<lambda>n. if n < 2 then Some (putRejection ''The quota has been exceeded.'')
                          else None)\<rparr>\<rparr> :: nat CacheManagerImpl)
      ''k'' [10, 20] = None
   \<and> (\<exists>cm1 e. markComplete (toStringRadix 10) 1000 3
      (initializedManager\<lparr>dbWrapper := \<lparr>objects = [], putCalls = 0,
          putFault = (\<lambda>n. if n < 2 then Some (putRejection ''The quota has been exceeded.'')
                          else None)\<rparr>\<rparr> :: nat CacheManagerImpl)
      ''k'' [10, 20] = Some cm1
        \<and> putCalls (dbWrapper cm1) = 3
        \<and> objects (dbWrapper cm1) = [(''k'', Entry e)]
        \<and> entry_data e = [10, 20] \<and> isComplete e)
   \<and> (\<forall>fuel. markComplete (toStringRadix 10) 1000 fuel
      (initializedManager\<lparr>dbWrapper := \<lparr>objects = [], putCalls = 0,
          putFault = (\<lambda>n. Some (putRejection ''The quota has been exceeded.''))\<rparr>\<rparr>
         :: nat CacheManagerImpl)
      ''k'' [10, 20] = None)"
proof (intro conjI allI)
  show "markComplete (toStringRadix 10) 1000 2
      (initializedManager\<lparr>dbWrapper := \<lparr>objects = [], putCalls = 0,
          putFault = (\<lambda>n. if n < 2 then Some (putRejection ''The quota has been exceeded.'')
                          else None)\<rparr>\<rparr> :: nat CacheManagerImpl)
      ''k'' [10, 20] = None"
    by (simp add: numeral_2_eq_2 quota_recognised markComplete.simps(1)
        markComplete_quota_retry[where e = "putRejection ''The quota has been exceeded.''"])
  show "\<exists>cm1 e. markComplete (toStringRadix 10) 1000 3
      (initializedManager\<lparr>dbWrapper := \<lparr>objects = [], putCalls = 0,
          putFault = (\<lambda>n. if n < 2 then Some (putRejection ''The quota has been exceeded.'')
                          else None)\<rparr>\<rparr> :: nat CacheManagerImpl)
      ''k'' [10, 20] = Some cm1
        \<and> putCalls (dbWrapper cm1) = 3
        \<and> objects (dbWrapper cm1) = [(''k'', Entry e)]
        \<and> entry_data e = [10, 20] \<and> isComplete e"
    by (simp add: numeral_3_eq_3 quota_recognised markComplete_writes
        markComplete_quota_retry[where e = "putRejection ''The quota has been exceeded.''"]
        getOrCreateCacheEntry_def newCacheEntry_def dbGet_def)
next
  fix fuel
  show "markComplete (toStringRadix 10) 1000 fuel
      (initializedManager\<lparr>dbWrapper := \<lparr>objects = [], putCalls = 0,
          putFault = (\<lambda>n. Some (putRejection ''The quota has been exceeded.''))\<rparr>\<rparr>
         :: nat CacheManagerImpl)
      ''k'' [10, 20] = None"
    by (rule markComplete_never_returns) (simp_all add: quota_recognised)
qed

section \<open>Eviction sweep\<close>

text \<open>
  Deleting a list of keys filters the objects of the store and leaves the configuration
  of the manager alone.
\<close>

lemma objects_foldl_dbDelete:
  "objects (foldl dbDelete w ks) = filter (\<lambda>p. fst p \<notin> set ks) (objects w)"
proof (induction ks arbitrary: w)
  case Nil
  then show ?case by simp
next
  case (Cons k ks)
  have "objects (dbDelete w k) = filter (\<lambda>p. fst p \<noteq> k) (objects w)"
    by (auto simp: dbDelete_def AList.delete_eq intro: filter_cong)
  then show ?case
    using Cons.IH[of "dbDelete w k"] by (auto intro: filter_cong)
qed

lemma objects_deleteKeys:
  "objects (dbWrapper (deleteKeys cm ks)) = filter (\<lambda>p. fst p \<notin> set ks) (objects (dbWrapper cm))"
  by (simp add: deleteKeys_def objects_foldl_dbDelete)

lemma deleteKeys_frame [simp]:
  "config_maxSize (deleteKeys cm ks) = config_maxSize cm"
  "config_maxAge (deleteKeys cm ks) = config_maxAge cm"
  "isInitialized (deleteKeys cm ks) = isInitialized cm"
  by (simp_all add: deleteKeys_def)

lemma classify_valid:
  assumes "classifyEntry ser now cm k = IsValid v"
  shows "valid_key v = k"
    and "valid_lastAccessed v = lastAccessed (metadata (valid_entry v))"
    and "dbGet (dbWrapper cm) k = Some (Entry (valid_entry v))"
  using assms
  by (auto simp: classifyEntry_def validateCacheEntry_def
      split: option.splits sum.splits if_splits stored.splits)

lemma validOf_keys:
  "map valid_key (validOf ser now cm ks) = filter (\<lambda>k. \<exists>v. classifyEntry ser now cm k = IsValid v) ks"
proof (induction ks)
  case Nil
  then show ?case by (simp add: validOf_def)
next
  case (Cons k ks)
  then show ?case
    by (cases "classifyEntry ser now cm k")
       (auto simp: validOf_def classify_valid(1))
qed

lemma expiredOf_keys:
  "set (map fst (expiredOf ser now cm ks)) \<union> set (corruptedOf ser now cm ks)
     = {k \<in> set ks. \<nexists>v. classifyEntry ser now cm k = IsValid v}"
proof (induction ks)
  case Nil
  then show ?case by (simp add: expiredOf_def corruptedOf_def)
next
  case (Cons k ks)
  then show ?case
    by (cases "classifyEntry ser now cm k")
       (auto simp: expiredOf_def corruptedOf_def)
qed

lemma length_filter_keys:
  assumes "distinct (map fst ps)" and "distinct ks" and "set ks \<subseteq> set (map fst ps)"
  shows "length (filter (\<lambda>p. fst p \<in> set ks) ps) = length ks"
proof -
  have "map fst (filter (\<lambda>p. fst p \<in> set ks) ps) = filter (\<lambda>k. k \<in> set ks) (map fst ps)"
    by (simp add: filter_map comp_def)
  moreover have "distinct (filter (\<lambda>k. k \<in> set ks) (map fst ps))"
    using assms(1) by simp
  moreover have "set (filter (\<lambda>k. k \<in> set ks) (map fst ps)) = set ks"
    using assms(3) by auto
  ultimately have "length (map fst (filter (\<lambda>p. fst p \<in> set ks) ps)) = card (set ks)"
    by (metis distinct_card)
  then show ?thesis using assms(2) by (simp add: distinct_card)
qed

lemma sweep_objects:
  fixes cm :: "'r CacheManagerImpl"
  assumes d: "distinct (map fst (objects (dbWrapper cm)))"
    and big: "config_maxSize cm < length (validOf ser now cm (dbGetAllKeys (dbWrapper cm)))"
  shows "objects (dbWrapper
           (snd (cleanupOldEntriesIfNeeded
              (snd (cleanupExpiredEntries
                 (snd (analyzeEntriesForCleanup ser now cm (dbGetAllKeys (dbWrapper cm))))
                 (expiredOf ser now cm (dbGetAllKeys (dbWrapper cm)))))
              (validOf ser now cm (dbGetAllKeys (dbWrapper cm))))))
       = filter (\<lambda>p. fst p \<in> set (map valid_key
            (drop (length (validOf ser now cm (dbGetAllKeys (dbWrapper cm)))
                     - config_maxSize cm * 3 div 4)
               (sort_key valid_lastAccessed
                  (validOf ser now cm (dbGetAllKeys (dbWrapper cm)))))))
           (objects (dbWrapper cm))"
proof -
  define allKeys where "allKeys = dbGetAllKeys (dbWrapper cm)"
  define vs where "vs = validOf ser now cm allKeys"
  define srt where "srt = sort_key valid_lastAccessed vs"
  define r where "r = length vs - config_maxSize cm * 3 div 4"
  have keys: "set allKeys = set (map fst (objects (dbWrapper cm)))"
    by (simp add: allKeys_def dbGetAllKeys_def)
  have dk: "distinct allKeys"
    using d by (simp add: allKeys_def dbGetAllKeys_def)
  have vkeys: "map valid_key vs = filter (\<lambda>k. \<exists>v. classifyEntry ser now cm k = IsValid v) allKeys"
    by (simp add: vs_def validOf_keys)
  have dv: "distinct (map valid_key srt)"
  proof -
    have "distinct (map valid_key vs)" using dk by (simp add: vkeys)
    moreover have "mset (map valid_key srt) = mset (map valid_key vs)"
      by (simp add: srt_def)
    ultimately show ?thesis by (metis mset_eq_imp_distinct_iff)
  qed
  have split: "map valid_key srt = map valid_key (take r srt) @ map valid_key (drop r srt)"
    by (metis append_take_drop_id map_append)
  have disj: "set (map valid_key (take r srt)) \<inter> set (map valid_key (drop r srt)) = {}"
    using dv split by (metis distinct_append)
  have vset: "set (map valid_key srt)
                = {k \<in> set allKeys. \<exists>v. classifyEntry ser now cm k = IsValid v}"
  proof -
    have "set (map valid_key srt) = set (map valid_key vs)" by (simp add: srt_def)
    then show ?thesis by (simp add: vkeys)
  qed
  have rpos: "r \<noteq> 0" using big by (simp add: r_def vs_def allKeys_def)
  have old: "snd (cleanupOldEntriesIfNeeded cm2 vs)
               = deleteKeys cm2 (map valid_key (take r srt))"
    if "config_maxSize cm2 = config_maxSize cm" for cm2 :: "'r CacheManagerImpl"
    using big rpos that
    by (simp add: cleanupOldEntriesIfNeeded_def Let_def srt_def r_def vs_def allKeys_def)
  have "objects (dbWrapper
           (snd (cleanupOldEntriesIfNeeded
              (snd (cleanupExpiredEntries
                 (snd (analyzeEntriesForCleanup ser now cm allKeys))
                 (expiredOf ser now cm allKeys)))
              vs)))
        = filter (\<lambda>p. fst p \<notin> set (map valid_key (take r srt)))
            (filter (\<lambda>p. fst p \<notin> set (map fst (expiredOf ser now cm allKeys)))
               (filter (\<lambda>p. fst p \<notin> set (corruptedOf ser now cm allKeys))
                  (objects (dbWrapper cm))))"
    by (subst old)
       (simp_all add: cleanupExpiredEntries_def analyzeEntriesForCleanup_def Let_def
          objects_deleteKeys)
  also have "\<dots> = filter (\<lambda>p. fst p \<in> set (map valid_key (drop r srt)))
                      (objects (dbWrapper cm))"
  proof -
    have "\<And>p. p \<in> set (objects (dbWrapper cm)) \<Longrightarrow>
            (fst p \<notin> set (corruptedOf ser now cm allKeys)
             \<and> fst p \<notin> set (map fst (expiredOf ser now cm allKeys))
             \<and> fst p \<notin> set (map valid_key (take r srt)))
            \<longleftrightarrow> fst p \<in> set (map valid_key (drop r srt))"
    proof -
      fix p assume "p \<in> set (objects (dbWrapper cm))"
      then have pk: "fst p \<in> set allKeys" using keys by auto
      have bad: "fst p \<in> set (map fst (expiredOf ser now cm allKeys))
                            \<union> set (corruptedOf ser now cm allKeys)
                 \<longleftrightarrow> (\<nexists>v. classifyEntry ser now cm (fst p) = IsValid v)"
        using pk by (simp only: expiredOf_keys) simp
      have good: "fst p \<in> set (map valid_key srt)
                  \<longleftrightarrow> (\<exists>v. classifyEntry ser now cm (fst p) = IsValid v)"
        using pk by (simp only: vset) simp
      have un: "set (map valid_key srt)
                  = set (map valid_key (take r srt)) \<union> set (map valid_key (drop r srt))"
        by (metis split set_append)
      show "(fst p \<notin> set (corruptedOf ser now cm allKeys)
             \<and> fst p \<notin> set (map fst (expiredOf ser now cm allKeys))
             \<and> fst p \<notin> set (map valid_key (take r srt)))
            \<longleftrightarrow> fst p \<in> set (map valid_key (drop r srt))"
        using bad good un disj by blast
    qed
    then show ?thesis by (auto simp: filter_filter intro!: filter_cong)
  qed
  finally show ?thesis
    by (simp add: allKeys_def vs_def srt_def r_def)
qed




text \<open>
  The sweep before the storage estimate is consulted, and the store of fifteen entries
  evaluated: all fifteen are valid at time 1000, and in the order of their access times
  the keys are \<open>b d f h j l n o m k i g e c a\<close>.
\<close>

lemma cleanupExpired_steps:
  assumes "isInitialized cm" and "dbGetAllKeys (dbWrapper cm) \<noteq> []"
  shows "cleanupExpired ser now est cm
           = checkAndHandleStorageQuota est
               (snd (cleanupOldEntriesIfNeeded
                  (snd (cleanupExpiredEntries
                     (snd (analyzeEntriesForCleanup ser now cm (dbGetAllKeys (dbWrapper cm))))
                     (expiredOf ser now cm (dbGetAllKeys (dbWrapper cm)))))
                  (validOf ser now cm (dbGetAllKeys (dbWrapper cm)))))"
  using assms
  by (simp add: cleanupExpired_def Let_def split_def analyzeEntriesForCleanup_def)

text \<open>
  When the storage estimate reports a usage above 90 % of the quota,
  \<open>checkAndHandleStorageQuota\<close> runs \<open>performAggressiveCleanup\<close> on what the sweep by
  count has left, and that deletes the older half: of the \<open>floor(0.75 * maxSize)\<close>
  entries, \<open>floor\<close> of half their number go.
\<close>

lemma length_filter_other_keys:
  assumes "distinct (map fst ps)" and "distinct ks" and "set ks \<subseteq> set (map fst ps)"
  shows "length (filter (\<lambda>p. fst p \<notin> set ks) ps) = length ps - length ks"
proof -
  have "length ps = length (filter (\<lambda>p. fst p \<in> set ks) ps)
                      + length (filter (\<lambda>p. \<not> fst p \<in> set ks) ps)"
    by (rule sum_length_filter_compl[symmetric])
  then show ?thesis using length_filter_keys[OF assms] by simp
qed

lemma map_fst_entriesWithTimes: "map fst (entriesWithTimes cm ks) = ks"
  by (induction ks)
     (auto simp: entriesWithTimes_def split: option.splits sum.splits)

lemma performAggressiveCleanup_count:
  assumes d: "distinct (map fst (objects (dbWrapper cm)))"
  shows "length (dbGetAllKeys (dbWrapper (performAggressiveCleanup cm)))
           = length (dbGetAllKeys (dbWrapper cm)) - length (dbGetAllKeys (dbWrapper cm)) div 2"
proof (cases "dbGetAllKeys (dbWrapper cm) = []")
  case True
  then show ?thesis by (simp add: performAggressiveCleanup_def)
next
  case False
  define allKeys where "allKeys = dbGetAllKeys (dbWrapper cm)"
  define srt where "srt = sort_key snd (entriesWithTimes cm allKeys)"
  define ks where "ks = map fst (take (length srt div 2) srt)"
  have dk: "distinct allKeys" using d by (simp add: allKeys_def dbGetAllKeys_def)
  have len: "length srt = length allKeys"
    using map_fst_entriesWithTimes[of cm allKeys]
    by (metis srt_def length_map length_sort)
  have "mset (map fst srt) = mset (map fst (entriesWithTimes cm allKeys))"
    by (simp add: srt_def)
  then have ms: "mset (map fst srt) = mset allKeys"
    by (simp only: map_fst_entriesWithTimes)
  have dsrt: "distinct (map fst srt)"
    using dk ms by (metis mset_eq_imp_distinct_iff)
  have ks_take: "ks = take (length srt div 2) (map fst srt)"
    by (simp add: ks_def take_map)
  have dks: "distinct ks" using dsrt by (simp add: ks_take)
  have "set ks \<subseteq> set (map fst srt)" unfolding ks_take by (rule set_take_subset)
  also have "set (map fst srt) = set allKeys" using ms by (metis mset_eq_setD)
  also have "\<dots> = set (map fst (objects (dbWrapper cm)))"
    by (simp add: allKeys_def dbGetAllKeys_def)
  finally have sub: "set ks \<subseteq> set (map fst (objects (dbWrapper cm)))" .
  have lks: "length ks = length allKeys div 2" by (simp add: ks_take len)
  have run: "performAggressiveCleanup cm = deleteKeys cm ks"
    using False
    by (simp add: performAggressiveCleanup_def Let_def allKeys_def srt_def ks_def)
  have "length (objects (dbWrapper (deleteKeys cm ks)))
          = length (objects (dbWrapper cm)) - length ks"
    by (simp add: objects_deleteKeys length_filter_other_keys[OF d dks sub])
  then show ?thesis
    by (simp add: run dbGetAllKeys_def lks allKeys_def)
qed

lemma sweep_count:
  fixes cm :: "'r CacheManagerImpl"
  assumes d: "distinct (map fst (objects (dbWrapper cm)))"
    and big: "config_maxSize cm < length (validOf ser now cm (dbGetAllKeys (dbWrapper cm)))"
  defines "cm3 \<equiv> snd (cleanupOldEntriesIfNeeded
              (snd (cleanupExpiredEntries
                 (snd (analyzeEntriesForCleanup ser now cm (dbGetAllKeys (dbWrapper cm))))
                 (expiredOf ser now cm (dbGetAllKeys (dbWrapper cm)))))
              (validOf ser now cm (dbGetAllKeys (dbWrapper cm))))"
  shows "distinct (map fst (objects (dbWrapper cm3)))"
    and "length (dbGetAllKeys (dbWrapper cm3)) = config_maxSize cm * 3 div 4"
proof -
  define allKeys where "allKeys = dbGetAllKeys (dbWrapper cm)"
  define vs where "vs = validOf ser now cm allKeys"
  define target where "target = config_maxSize cm * 3 div 4"
  define srt where "srt = sort_key valid_lastAccessed vs"
  define r where "r = length vs - target"
  have objs: "objects (dbWrapper cm3)
      = filter (\<lambda>p. fst p \<in> set (map valid_key (drop r srt))) (objects (dbWrapper cm))"
    using sweep_objects[OF d big]
    by (simp add: cm3_def allKeys_def vs_def srt_def r_def target_def)
  show "distinct (map fst (objects (dbWrapper cm3)))"
    using d by (simp add: objs distinct_map_filter)
  have tle: "target \<le> length vs"
    using big by (simp add: target_def vs_def allKeys_def)
  have len_kept: "length (drop r srt) = target"
    using tle by (simp add: r_def srt_def)
  have dk: "distinct allKeys"
    using d by (simp add: allKeys_def dbGetAllKeys_def)
  have vkeys: "map valid_key vs = filter (\<lambda>k. \<exists>v. classifyEntry ser now cm k = IsValid v) allKeys"
    by (simp add: vs_def validOf_keys)
  have dv: "distinct (map valid_key srt)"
  proof -
    have "distinct (map valid_key vs)" using dk by (simp add: vkeys)
    moreover have "mset (map valid_key srt) = mset (map valid_key vs)"
      by (simp add: srt_def)
    ultimately show ?thesis by (metis mset_eq_imp_distinct_iff)
  qed
  have dkept: "distinct (map valid_key (drop r srt))"
    using dv by (metis append_take_drop_id distinct_append map_append)
  have sub: "set (map valid_key (drop r srt)) \<subseteq> set (map fst (objects (dbWrapper cm)))"
  proof -
    have "set (map valid_key (drop r srt)) \<subseteq> set (map valid_key srt)"
      by (metis set_drop_subset set_map image_mono)
    also have "\<dots> = set (map valid_key vs)" by (simp add: srt_def)
    also have "\<dots> \<subseteq> set allKeys" by (simp add: vkeys)
    also have "\<dots> = set (map fst (objects (dbWrapper cm)))"
      by (simp add: allKeys_def dbGetAllKeys_def)
    finally show ?thesis .
  qed
  have "length (objects (dbWrapper cm3)) = target"
    using length_filter_keys[OF d dkept sub] len_kept by (simp add: objs)
  then show "length (dbGetAllKeys (dbWrapper cm3)) = config_maxSize cm * 3 div 4"
    by (simp add: dbGetAllKeys_def target_def)
qed

lemma cleanupExpired_halves_under_pressure:
  fixes cm :: "'r CacheManagerImpl"
  assumes init: "isInitialized cm"
    and d: "distinct (map fst (objects (dbWrapper cm)))"
    and big: "config_maxSize cm < length (validOf ser now cm (dbGetAllKeys (dbWrapper cm)))"
    and pressure: "quota \<noteq> 0" "usage \<noteq> 0" "90 * quota < usage * 100"
  shows "length (dbGetAllKeys (dbWrapper (cleanupExpired ser now (Estimate usage quota) cm)))
           = config_maxSize cm * 3 div 4 - config_maxSize cm * 3 div 4 div 2"
proof -
  have ne: "dbGetAllKeys (dbWrapper cm) \<noteq> []"
    using big by (auto simp: validOf_def)
  show ?thesis
    using pressure sweep_count[OF d big]
    by (simp add: cleanupExpired_steps[OF init ne] checkAndHandleStorageQuota_def
        performAggressiveCleanup_count)
qed













end
